theory Spec2Isabelle
  imports Main "HOL-Library.Multiset"
begin

section \<open>Score validator (components/Challenges.tsx)\<close>

text \<open>
  The score dialog holds six text fields; \<^verbatim>\<open>parseInt\<close> turns each into a JavaScript
  number. A parsed field is modelled as \<open>int option\<close>: \<open>None\<close> is \<^verbatim>\<open>NaN\<close> (an empty
  field), \<open>Some n\<close> is the integer \<open>n\<close>.
\<close>

type_synonym js_number = "int option"

text \<open>JavaScript's \<^verbatim>\<open>a > b\<close> and \<^verbatim>\<open>a < b\<close> on numbers: false as soon as one side is NaN.\<close>

fun js_gt :: "js_number \<Rightarrow> js_number \<Rightarrow> bool" where
  "js_gt (Some a) (Some b) = (a > b)"
| "js_gt _ _ = False"

fun js_lt :: "js_number \<Rightarrow> js_number \<Rightarrow> bool" where
  "js_lt (Some a) (Some b) = (a < b)"
| "js_lt _ _ = False"

definition isNaN :: "js_number \<Rightarrow> bool" where
  "isNaN x = (x = None)"

definition isValidSetScore :: "int \<Rightarrow> int \<Rightarrow> bool" where
  "isValidSetScore winnerGames loserGames =
     (if winnerGames = 6 then loserGames \<ge> 0 \<and> loserGames \<le> 4
      else if winnerGames = 7 then loserGames = 5 \<or> loserGames = 6
      else False)"

text \<open>
  \<^verbatim>\<open>validateSetScores\<close> returns \<^verbatim>\<open>{ valid, error? }\<close>; the model returns the error, and
  \<open>None\<close> stands for \<^verbatim>\<open>{ valid: true }\<close>.
\<close>

datatype set_error =
    Both_scores_must_be_entered
  | Scores_cannot_be_negative
  | Invalid_score
  | Sets_cannot_end_in_a_tie

fun validateSetScores :: "js_number \<Rightarrow> js_number \<Rightarrow> set_error option" where
  "validateSetScores None None = None"
| "validateSetScores None (Some _) = Some Both_scores_must_be_entered"
| "validateSetScores (Some _) None = Some Both_scores_must_be_entered"
| "validateSetScores (Some challengerScore) (Some challengedScore) =
     (if challengerScore < 0 \<or> challengedScore < 0 then Some Scores_cannot_be_negative
      else if challengerScore > challengedScore then
        (if \<not> isValidSetScore challengerScore challengedScore then Some Invalid_score else None)
      else if challengedScore > challengerScore then
        (if \<not> isValidSetScore challengedScore challengerScore then Some Invalid_score else None)
      else Some Sets_cannot_end_in_a_tie)"

text \<open>The toasts with which \<^verbatim>\<open>handleSubmitScore\<close> refuses a score.\<close>

datatype toast =
    Invalid_Set_1_Score set_error
  | Invalid_Set_2_Score set_error
  | Invalid_Set_3_Score set_error
  | Invalid_Match_Result
  | Invalid_Match
  | Match_Incomplete

record scores =
  set1c :: js_number
  set1d :: js_number
  set2c :: js_number
  set2d :: js_number
  set3c :: js_number
  set3d :: js_number

definition b2n :: "bool \<Rightarrow> nat" where
  "b2n b = (if b then 1 else 0)"

text \<open>
  \<^verbatim>\<open>handleSubmitScore\<close>, from the parsed fields on. \<open>Inl\<close> is the toast shown when the
  handler returns early; \<open>Inr (challengerSets, challengedSets)\<close> are the two arrays with
  which the handler calls \<^verbatim>\<open>submitScore\<close>.
\<close>

definition handleSubmitScore :: "scores \<Rightarrow> toast + (js_number list \<times> js_number list)" where
  "handleSubmitScore s =
     (case validateSetScores (set1c s) (set1d s) of
        Some e \<Rightarrow> Inl (Invalid_Set_1_Score e)
      | None \<Rightarrow>
     (case validateSetScores (set2c s) (set2d s) of
        Some e \<Rightarrow> Inl (Invalid_Set_2_Score e)
      | None \<Rightarrow>
     (case validateSetScores (set3c s) (set3d s) of
        Some e \<Rightarrow> Inl (Invalid_Set_3_Score e)
      | None \<Rightarrow>
     (let hasThirdSet = (\<not> isNaN (set3c s) \<and> \<not> isNaN (set3d s));
          challengerSetsWon =
            b2n (js_gt (set1c s) (set1d s)) + b2n (js_gt (set2c s) (set2d s))
            + (if hasThirdSet then b2n (js_gt (set3c s) (set3d s)) else 0);
          challengedSetsWon =
            b2n (\<not> js_gt (set1c s) (set1d s)) + b2n (\<not> js_gt (set2c s) (set2d s))
            + (if hasThirdSet then b2n (\<not> js_gt (set3c s) (set3d s)) else 0);
          firstTwoSetsWinner = b2n (js_gt (set1c s) (set1d s)) + b2n (js_gt (set2c s) (set2d s));
          firstTwoSetsLosses = b2n (js_lt (set1c s) (set1d s)) + b2n (js_lt (set2c s) (set2d s))
      in
      if challengerSetsWon = challengedSetsWon then Inl Invalid_Match_Result
      else if (challengerSetsWon = 2 \<or> challengedSetsWon = 2) \<and> hasThirdSet
              \<and> (firstTwoSetsWinner = 2 \<or> firstTwoSetsLosses = 2) then Inl Invalid_Match
      else if challengerSetsWon = 1 \<and> challengedSetsWon = 1 \<and> \<not> hasThirdSet then Inl Match_Incomplete
      else if hasThirdSet
        then Inr ([set1c s, set2c s, set3c s], [set1d s, set2d s, set3d s])
        else Inr ([set1c s, set2c s], [set1d s, set2d s])))))"

section \<open>The league store (supabase/migrations/001_initial_schema.sql)\<close>

text \<open>
  Rows of the tables \<^verbatim>\<open>teams\<close>, \<^verbatim>\<open>challenges\<close> and \<^verbatim>\<open>league_settings\<close>, with the
  columns the league context reads and writes. Identifiers are UUID strings. The React
  state of \<^verbatim>\<open>LeagueProvider\<close> holds copies of the same rows under camel-case names
  (\<^verbatim>\<open>challenger_team_id\<close> is \<^verbatim>\<open>challengerTeamId\<close>, and so on); the model uses one record
  for both and keeps the column names. Profiles, join requests and the timestamps are
  left out: no operation below reads them.
\<close>

type_synonym uuid = string

datatype league = mens | womens

datatype challenge_status = pending | accepted | declined | completed

text \<open>An element of an \<^verbatim>\<open>INTEGER[]\<close> column: \<open>None\<close> is SQL \<^verbatim>\<open>NULL\<close>, which is what the
  JSON encoding of a request makes of a \<^verbatim>\<open>NaN\<close>.\<close>

type_synonym db_int = "int option"

record team =
  team_id :: uuid
  team_name :: string
  creator_id :: uuid
  league :: league
  position :: int
  previous_position :: "int option"

record challenge =
  challenge_id :: uuid
  challenger_team_id :: uuid
  challenged_team_id :: uuid
  status :: challenge_status
  challenger_sets :: "db_int list option"
  challenged_sets :: "db_int list option"
  score_submitted_by :: "uuid option"
  score_validated :: bool
  winner_id :: "uuid option"

text \<open>
  \<^verbatim>\<open>challengeRestrictionDate\<close> is a \<^verbatim>\<open>DATE NOT NULL\<close> column; the model keeps the time
  value of \<^verbatim>\<open>new Date(settings.challengeRestrictionDate)\<close>, in milliseconds.
\<close>

record league_settings =
  challengeRestrictionDate :: int
  maxPositionDifference :: int

text \<open>
  The state: the three tables, and the copies held by the provider (\<open>teams\<close>,
  \<open>challenges\<close>, \<open>settings\<close>), which change only when a fetch succeeds.
\<close>

record world =
  db_teams :: "team list"
  db_challenges :: "challenge list"
  db_settings :: "league_settings option"
  teams :: "team list"
  challenges :: "challenge list"
  settings :: "league_settings option"

text \<open>
  Every call to the store may fail. An execution of one operation is run against a
  predicate that tells which of its store requests fail; each operation sends each
  request at most once.
\<close>

datatype request =
    Select_teams
  | Select_challenges
  | Select_settings
  | Insert_team
  | Insert_challenge
  | Update_status
  | Update_score
  | Update_dispute
  | Update_validated
  | Select_fresh_teams
  | Update_step1
  | Select_teams_to_shift
  | Update_shift uuid
  | Update_step3

definition reliable :: "request \<Rightarrow> bool" where
  "reliable r = False"

datatype error =
    StoreError
  | UniqueViolation
  | ActiveChallengeExists

text \<open>\<^verbatim>\<open>UNIQUE(league, position)\<close>: would row \<open>r\<close> collide with another row of \<open>tbl\<close>?\<close>

definition position_taken :: "team list \<Rightarrow> team \<Rightarrow> bool" where
  "position_taken tbl r =
     list_ex (\<lambda>r'. team_id r' \<noteq> team_id r \<and> league r' = league r \<and> position r' = position r) tbl"

text \<open>\<^verbatim>\<open>from('teams').update(...).eq('id', i)\<close>: all or nothing, refused when the new row
  would break the uniqueness constraint.\<close>

definition update_team ::
  "(request \<Rightarrow> bool) \<Rightarrow> request \<Rightarrow> team list \<Rightarrow> uuid \<Rightarrow> (team \<Rightarrow> team) \<Rightarrow> error + team list" where
  "update_team fail req tbl i f =
     (if fail req then Inl StoreError
      else if list_ex (\<lambda>r. team_id r = i \<and> position_taken tbl (f r)) tbl then Inl UniqueViolation
      else Inr (map (\<lambda>r. if team_id r = i then f r else r) tbl))"

text \<open>\<^verbatim>\<open>from('teams').insert(...)\<close>: refused on a duplicate primary key or position.\<close>

definition insert_team :: "(request \<Rightarrow> bool) \<Rightarrow> team list \<Rightarrow> team \<Rightarrow> error + team list" where
  "insert_team fail tbl r =
     (if fail Insert_team then Inl StoreError
      else if list_ex (\<lambda>r'. team_id r' = team_id r) tbl \<or> position_taken tbl r then Inl UniqueViolation
      else Inr (tbl @ [r]))"

definition update_challenge ::
  "(request \<Rightarrow> bool) \<Rightarrow> request \<Rightarrow> challenge list \<Rightarrow> uuid \<Rightarrow> (challenge \<Rightarrow> challenge)
     \<Rightarrow> error + challenge list" where
  "update_challenge fail req tbl i f =
     (if fail req then Inl StoreError
      else Inr (map (\<lambda>c. if challenge_id c = i then f c else c) tbl))"

text \<open>New challenges come first, as \<^verbatim>\<open>fetchChallenges\<close> orders by creation time, descending.\<close>

definition insert_challenge ::
  "(request \<Rightarrow> bool) \<Rightarrow> challenge list \<Rightarrow> challenge \<Rightarrow> error + challenge list" where
  "insert_challenge fail tbl c =
     (if fail Insert_challenge then Inl StoreError
      else if list_ex (\<lambda>c'. challenge_id c' = challenge_id c) tbl then Inl UniqueViolation
      else Inr (c # tbl))"

text \<open>A write whose error is only logged: the table stays as it was.\<close>

fun logged :: "error + 'a \<Rightarrow> 'a \<Rightarrow> 'a" where
  "logged (Inl e) old = old"
| "logged (Inr new) old = new"

section \<open>The league context (contexts/LeagueContext.tsx)\<close>

definition fetchTeams :: "(request \<Rightarrow> bool) \<Rightarrow> world \<Rightarrow> world" where
  "fetchTeams fail w =
     (if fail Select_teams then w else w\<lparr>teams := sort_key position (db_teams w)\<rparr>)"

definition fetchChallenges :: "(request \<Rightarrow> bool) \<Rightarrow> world \<Rightarrow> world" where
  "fetchChallenges fail w =
     (if fail Select_challenges then w else w\<lparr>challenges := db_challenges w\<rparr>)"

definition fetchSettings :: "(request \<Rightarrow> bool) \<Rightarrow> world \<Rightarrow> world" where
  "fetchSettings fail w =
     (if fail Select_settings then w
      else case db_settings w of None \<Rightarrow> w | Some s \<Rightarrow> w\<lparr>settings := Some s\<rparr>)"

definition refreshData :: "(request \<Rightarrow> bool) \<Rightarrow> world \<Rightarrow> world" where
  "refreshData fail w = fetchSettings fail (fetchChallenges fail (fetchTeams fail w))"

text \<open>\<^verbatim>\<open>score\<close> of a fetched challenge: present when both arrays are.\<close>

definition score :: "challenge \<Rightarrow> (db_int list \<times> db_int list) option" where
  "score ch =
     (case (challenger_sets ch, challenged_sets ch) of
        (Some cs, Some ds) \<Rightarrow> Some (cs, ds)
      | _ \<Rightarrow> None)"

subsection \<open>createTeam\<close>

text \<open>\<open>new_id\<close> is the identifier the store generates for the inserted row. The second
  component is the returned team (\<open>None\<close> for \<^verbatim>\<open>null\<close>). The update of the creator's
  profile between the insert and the refresh touches no table of the model.\<close>

definition createTeam ::
  "(request \<Rightarrow> bool) \<Rightarrow> uuid \<Rightarrow> world \<Rightarrow> string \<Rightarrow> uuid \<Rightarrow> league \<Rightarrow> world \<times> team option" where
  "createTeam fail new_id w name creatorId lg =
     (let leagueTeams = filter (\<lambda>t. league t = lg) (teams w);
          nextPosition = int (length leagueTeams) + 1;
          row = \<lparr>team_id = new_id, team_name = name, creator_id = creatorId, league = lg,
                  position = nextPosition, previous_position = Some nextPosition\<rparr>
      in case insert_team fail (db_teams w) row of
           Inl e \<Rightarrow> (w, None)
         | Inr tbl \<Rightarrow> (refreshData fail (w\<lparr>db_teams := tbl\<rparr>), Some row))"

subsection \<open>canChallenge\<close>

definition canChallenge :: "world \<Rightarrow> int \<Rightarrow> team \<Rightarrow> team \<Rightarrow> bool" where
  "canChallenge w now challengerTeam challengedTeam =
     (if league challengerTeam \<noteq> league challengedTeam then False
      else if team_id challengerTeam = team_id challengedTeam then False
      else case settings w of
        None \<Rightarrow> False
      | Some s \<Rightarrow>
          (let restrictionDate = challengeRestrictionDate s in
           if now \<ge> restrictionDate then
             (let positionDiff = position challengerTeam - position challengedTeam
              in positionDiff > 0 \<and> positionDiff \<le> maxPositionDifference s)
           else position challengerTeam > position challengedTeam))"

subsection \<open>createChallenge, respondToChallenge, submitScore\<close>

definition is_active :: "challenge \<Rightarrow> bool" where
  "is_active c =
     (status c = pending \<or> status c = accepted \<or> (status c = completed \<and> \<not> score_validated c))"

definition between :: "uuid \<Rightarrow> uuid \<Rightarrow> challenge \<Rightarrow> bool" where
  "between a b c =
     ((challenger_team_id c = a \<and> challenged_team_id c = b)
      \<or> (challenger_team_id c = b \<and> challenged_team_id c = a))"

text \<open>The operations that throw return the error beside the state; \<open>None\<close> is a normal
  return.\<close>

definition createChallenge ::
  "(request \<Rightarrow> bool) \<Rightarrow> uuid \<Rightarrow> world \<Rightarrow> uuid \<Rightarrow> uuid \<Rightarrow> error option \<times> world" where
  "createChallenge fail new_id w challengerTeamId challengedTeamId =
     (case find (\<lambda>c. between challengerTeamId challengedTeamId c \<and> is_active c) (challenges w) of
        Some existingChallenge \<Rightarrow> (Some ActiveChallengeExists, w)
      | None \<Rightarrow>
          (case insert_challenge fail (db_challenges w)
                  \<lparr>challenge_id = new_id, challenger_team_id = challengerTeamId,
                   challenged_team_id = challengedTeamId, status = accepted,
                   challenger_sets = None, challenged_sets = None, score_submitted_by = None,
                   score_validated = False, winner_id = None\<rparr> of
             Inl e \<Rightarrow> (Some e, w)
           | Inr tbl \<Rightarrow> (None, fetchChallenges fail (w\<lparr>db_challenges := tbl\<rparr>))))"

definition respondToChallenge :: "(request \<Rightarrow> bool) \<Rightarrow> world \<Rightarrow> uuid \<Rightarrow> bool \<Rightarrow> world" where
  "respondToChallenge fail w challengeId accept =
     w\<lparr>db_challenges :=
         logged (update_challenge fail Update_status (db_challenges w) challengeId
                   (\<lambda>c. c\<lparr>status := (if accept then accepted else declined)\<rparr>))
                (db_challenges w)\<rparr>"

definition submitScore ::
  "(request \<Rightarrow> bool) \<Rightarrow> world \<Rightarrow> uuid \<Rightarrow> js_number list \<Rightarrow> js_number list \<Rightarrow> uuid
     \<Rightarrow> error option \<times> world" where
  "submitScore fail w challengeId challengerSets challengedSets submittedByTeamId =
     (case update_challenge fail Update_score (db_challenges w) challengeId
             (\<lambda>c. c\<lparr>challenger_sets := Some challengerSets, challenged_sets := Some challengedSets,
                    score_submitted_by := Some submittedByTeamId, status := completed\<rparr>) of
        Inl e \<Rightarrow> (Some e, w)
      | Inr tbl \<Rightarrow> (None, fetchChallenges fail (w\<lparr>db_challenges := tbl\<rparr>)))"

subsection \<open>validateScore\<close>

text \<open>
  The winner is computed with \<^verbatim>\<open>xs.filter((s, i) => s > ys[i]).length\<close>. An index beyond
  the end of \<open>ys\<close> reads \<^verbatim>\<open>undefined\<close>, and the comparison is false; a \<^verbatim>\<open>null\<close> element
  counts as 0.
\<close>

definition nth_opt :: "'a list \<Rightarrow> nat \<Rightarrow> 'a option" where
  "nth_opt xs i = (if i < length xs then Some (xs ! i) else None)"

fun to_number :: "db_int \<Rightarrow> int" where
  "to_number None = 0"
| "to_number (Some n) = n"

fun elem_gt :: "db_int \<Rightarrow> db_int option \<Rightarrow> bool" where
  "elem_gt s None = False"
| "elem_gt s (Some d) = (to_number s > to_number d)"

definition setsWon :: "db_int list \<Rightarrow> db_int list \<Rightarrow> nat" where
  "setsWon xs ys = length (filter (\<lambda>i. elem_gt (xs ! i) (nth_opt ys i)) [0..<length xs])"

definition winnerId_of :: "challenge \<Rightarrow> db_int list \<Rightarrow> db_int list \<Rightarrow> uuid" where
  "winnerId_of ch challengerSets challengedSets =
     (let challengerWins = setsWon challengerSets challengedSets;
          challengedWins = setsWon challengedSets challengerSets
      in if challengerWins > challengedWins then challenger_team_id ch else challenged_team_id ch)"

text \<open>The loop over \<^verbatim>\<open>teamsToShift\<close>: each entry is the \<^verbatim>\<open>(id, position)\<close> that the
  select returned, and each update's error is only logged.\<close>

fun shiftTeams :: "(request \<Rightarrow> bool) \<Rightarrow> team list \<Rightarrow> (uuid \<times> int) list \<Rightarrow> team list" where
  "shiftTeams fail tbl [] = tbl"
| "shiftTeams fail tbl ((i, p) # rest) =
     shiftTeams fail
       (logged (update_team fail (Update_shift i) tbl i
                  (\<lambda>r. r\<lparr>previous_position := Some p, position := p + 1\<rparr>)) tbl)
       rest"

text \<open>The select of step 2, ordered by position, descending; no rows when it fails.\<close>

definition teamsToShift ::
  "(request \<Rightarrow> bool) \<Rightarrow> team list \<Rightarrow> league \<Rightarrow> int \<Rightarrow> int \<Rightarrow> (uuid \<times> int) list" where
  "teamsToShift fail tbl lg loserPosition winnerOldPosition =
     (if fail Select_teams_to_shift then []
      else rev (sort_key snd
             (map (\<lambda>r. (team_id r, position r))
                (filter (\<lambda>r. league r = lg \<and> position r \<ge> loserPosition
                              \<and> position r < winnerOldPosition) tbl))))"

text \<open>Steps 1 to 3 of the position update, on the \<^verbatim>\<open>teams\<close> table.\<close>

definition updatePositions ::
  "(request \<Rightarrow> bool) \<Rightarrow> team list \<Rightarrow> uuid \<Rightarrow> team \<Rightarrow> team \<Rightarrow> team list" where
  "updatePositions fail tbl challengerId challengerTeam challengedTeam =
     (let loserPosition = position challengedTeam;
          winnerOldPosition = position challengerTeam;
          t1 = logged (update_team fail Update_step1 tbl challengerId
                         (\<lambda>r. r\<lparr>position := 99999\<rparr>)) tbl;
          t2 = shiftTeams fail t1
                 (teamsToShift fail t1 (league challengerTeam) loserPosition winnerOldPosition);
          t3 = logged (update_team fail Update_step3 t2 challengerId
                         (\<lambda>r. r\<lparr>previous_position := Some winnerOldPosition,
                                position := loserPosition\<rparr>)) t2
      in t3)"

definition validateScore :: "(request \<Rightarrow> bool) \<Rightarrow> world \<Rightarrow> uuid \<Rightarrow> bool \<Rightarrow> world" where
  "validateScore fail w challengeId valid =
     (case find (\<lambda>c. challenge_id c = challengeId) (challenges w) of
        None \<Rightarrow> w
      | Some ch \<Rightarrow>
     (case score ch of
        None \<Rightarrow> w
      | Some (challengerSets, challengedSets) \<Rightarrow>
      if \<not> valid then
        refreshData fail
          (w\<lparr>db_challenges :=
               logged (update_challenge fail Update_dispute (db_challenges w) challengeId
                         (\<lambda>c. c\<lparr>challenger_sets := None, challenged_sets := None,
                                status := accepted, score_submitted_by := None\<rparr>))
                      (db_challenges w)\<rparr>)
      else
        (let winnerId = winnerId_of ch challengerSets challengedSets;
             w1 = w\<lparr>db_challenges :=
                      logged (update_challenge fail Update_validated (db_challenges w) challengeId
                                (\<lambda>c. c\<lparr>score_validated := True, winner_id := Some winnerId\<rparr>))
                             (db_challenges w)\<rparr>
         in
         if winnerId = challenger_team_id ch then
           (let freshTeams =
                  filter (\<lambda>t. team_id t = challenger_team_id ch \<or> team_id t = challenged_team_id ch)
                    (db_teams w1)
            in
            if fail Select_fresh_teams \<or> length freshTeams < 2 then refreshData fail w1
            else
              (case (find (\<lambda>t. team_id t = challenger_team_id ch) freshTeams,
                     find (\<lambda>t. team_id t = challenged_team_id ch) freshTeams) of
                 (Some challengerTeam, Some challengedTeam) \<Rightarrow>
                   if position challengerTeam > position challengedTeam then
                     refreshData fail
                       (w1\<lparr>db_teams :=
                             updatePositions fail (db_teams w1) (challenger_team_id ch)
                               challengerTeam challengedTeam\<rparr>)
                   else refreshData fail w1
               | _ \<Rightarrow> refreshData fail w1))
         else refreshData fail w1)))"

section \<open>The ranking rule of the specification\<close>

text \<open>
  The reference function, written from section 4.4 of the specification: when the
  challenger won and stands below the challenged team, the challenger takes
  \<open>loserPos\<close> and remembers \<open>winnerOldPos\<close>, every team of the league with
  \<open>loserPos \<le> position < winnerOldPos\<close> moves down by one and remembers where it was,
  and every other team stays; otherwise nothing changes.
\<close>

definition spec_ranking :: "bool \<Rightarrow> uuid \<Rightarrow> league \<Rightarrow> int \<Rightarrow> int \<Rightarrow> team \<Rightarrow> team" where
  "spec_ranking challengerWon challengerId lg winnerOldPos loserPos t =
     (if challengerWon \<and> winnerOldPos > loserPos then
        (if team_id t = challengerId
           then t\<lparr>position := loserPos, previous_position := Some winnerOldPos\<rparr>
         else if league t = lg \<and> loserPos \<le> position t \<and> position t < winnerOldPos
           then t\<lparr>position := position t + 1, previous_position := Some (position t)\<rparr>
         else t)
      else t)"

section \<open>Auxiliary notions\<close>

text \<open>The rows that step 2 selects, and a row after the loop has moved it.\<close>

definition in_range :: "league \<Rightarrow> int \<Rightarrow> int \<Rightarrow> team \<Rightarrow> bool" where
  "in_range lg lo hi = (\<lambda>r. league r = lg \<and> position r \<ge> lo \<and> position r < hi)"

definition shifted :: "team \<Rightarrow> team" where
  "shifted r = r\<lparr>previous_position := Some (position r), position := position r + 1\<rparr>"

text \<open>An execution in which the store accepts the requests of the position update
  (it may still refuse a write that breaks a constraint).\<close>

definition writes_ok :: "(request \<Rightarrow> bool) \<Rightarrow> bool" where
  "writes_ok fail =
     (\<not> fail Update_step1 \<and> \<not> fail Select_teams_to_shift
      \<and> \<not> fail Update_step3 \<and> \<not> (\<exists>i. fail (Update_shift i)))"

text \<open>The row updates of \<^verbatim>\<open>submitScore\<close> and of a dispute.\<close>

definition submitted :: "uuid \<Rightarrow> db_int list \<Rightarrow> db_int list \<Rightarrow> uuid \<Rightarrow> challenge \<Rightarrow> challenge" where
  "submitted challengeId challengerSets challengedSets submittedByTeamId =
     (\<lambda>c. if challenge_id c = challengeId
          then c\<lparr>challenger_sets := Some challengerSets, challenged_sets := Some challengedSets,
                 score_submitted_by := Some submittedByTeamId, status := completed\<rparr>
          else c)"

definition disputed :: "uuid \<Rightarrow> challenge \<Rightarrow> challenge" where
  "disputed challengeId =
     (\<lambda>c. if challenge_id c = challengeId
          then c\<lparr>challenger_sets := None, challenged_sets := None, status := accepted,
                 score_submitted_by := None\<rparr>
          else c)"

section \<open>The ladder invariant\<close>

text \<open>The positions of the teams of one league, in table order.\<close>

definition positions_of :: "league \<Rightarrow> team list \<Rightarrow> int list" where
  "positions_of lg tbl = map position (filter (\<lambda>t. league t = lg) tbl)"

text \<open>A dense permutation of \<open>1..N\<close>: sorted, the positions of the league are exactly
  \<open>1, 2, ..., N\<close>, \<open>N\<close> the number of its teams.\<close>

definition dense :: "league \<Rightarrow> team list \<Rightarrow> bool" where
  "dense lg tbl = (sort (positions_of lg tbl) = [1..int (length (positions_of lg tbl))])"

text \<open>Where the reference ranking rule sends a position of the challenger's league.\<close>

definition moved :: "int \<Rightarrow> int \<Rightarrow> int \<Rightarrow> int" where
  "moved winnerOldPos loserPos p =
     (if p = winnerOldPos then loserPos
      else if loserPos \<le> p \<and> p < winnerOldPos then p + 1 else p)"

text \<open>
  What holds of every state the operations produce while no request of a position update
  has failed: identifiers are unique, each league is a dense permutation, and the
  provider's list of teams, which may be stale, never counts more teams of a league than
  the table has.
\<close>

definition store_inv :: "world \<Rightarrow> bool" where
  "store_inv w =
     (distinct (map team_id (db_teams w)) \<and> dense mens (db_teams w) \<and> dense womens (db_teams w)
      \<and> (\<forall>lg. length (filter (\<lambda>t. league t = lg) (teams w))
                \<le> length (filter (\<lambda>t. league t = lg) (db_teams w))))"


text \<open>
  The states reached while no request of a position update has failed: as above, any
  store call may fail, except that in every \<^verbatim>\<open>validateScore\<close> so far the store accepted
  the requests of steps 1 to 3.
\<close>

inductive undisturbed :: "world \<Rightarrow> bool" where
  initial:
    "undisturbed \<lparr>db_teams = [], db_challenges = [], db_settings = s,
                  teams = [], challenges = [], settings = None\<rparr>"
| createTeam:
    "undisturbed w \<Longrightarrow> undisturbed (fst (createTeam fail new_id w name creatorId lg))"
| createChallenge:
    "undisturbed w \<Longrightarrow> undisturbed (snd (createChallenge fail new_id w a b))"
| respondToChallenge:
    "undisturbed w \<Longrightarrow> undisturbed (respondToChallenge fail w i accept)"
| submitScore:
    "undisturbed w \<Longrightarrow> undisturbed (snd (submitScore fail w i cs ds sb))"
| validateScore:
    "undisturbed w \<Longrightarrow> writes_ok fail \<Longrightarrow> undisturbed (validateScore fail w i valid)"
| refreshData:
    "undisturbed w \<Longrightarrow> undisturbed (refreshData fail w)"

section \<open>Example data\<close>

text \<open>The ladder of section 8 of the specification: eight teams of one league at
  positions 1 to 8, and one team of the other league. Team \<open>f\<close> (position 6) has
  challenged team \<open>b\<close> (position 2) and entered 6-4 6-3.\<close>

definition ladder_team :: "uuid \<Rightarrow> league \<Rightarrow> int \<Rightarrow> team" where
  "ladder_team i lg p =
     \<lparr>team_id = i, team_name = i, creator_id = i, league = lg, position = p,
      previous_position = Some p\<rparr>"

definition ladder8 :: "team list" where
  "ladder8 =
     [ladder_team ''a'' mens 1, ladder_team ''x'' womens 1, ladder_team ''b'' mens 2,
      ladder_team ''c'' mens 3, ladder_team ''d'' mens 4, ladder_team ''e'' mens 5,
      ladder_team ''f'' mens 6, ladder_team ''g'' mens 7, ladder_team ''h'' mens 8]"

definition match_f_b :: challenge where
  "match_f_b =
     \<lparr>challenge_id = ''k'', challenger_team_id = ''f'', challenged_team_id = ''b'',
      status = completed, challenger_sets = Some [Some 6, Some 6],
      challenged_sets = Some [Some 4, Some 3], score_submitted_by = Some ''f'',
      score_validated = False, winner_id = None\<rparr>"

definition world8 :: world where
  "world8 =
     \<lparr>db_teams = ladder8, db_challenges = [match_f_b],
      db_settings = Some \<lparr>challengeRestrictionDate = 1000, maxPositionDifference = 4\<rparr>,
      teams = ladder8, challenges = [match_f_b],
      settings = Some \<lparr>challengeRestrictionDate = 1000, maxPositionDifference = 4\<rparr>\<rparr>"

text \<open>The same match after it was confirmed: completed and validated, hence no longer
  active.\<close>

definition world8_validated :: world where
  "world8_validated =
     world8\<lparr>db_challenges := [match_f_b\<lparr>score_validated := True, winner_id := Some ''f''\<rparr>],
            challenges := [match_f_b\<lparr>score_validated := True, winner_id := Some ''f''\<rparr>]\<rparr>"




section \<open>The position update follows the ranking rule\<close>

subsection \<open>The loop of step 2 on a descending selection\<close>

lemma update_team_ok:
  assumes "\<not> fail req"
    and "\<And>r r'. r \<in> set tbl \<Longrightarrow> team_id r = i \<Longrightarrow> r' \<in> set tbl \<Longrightarrow> team_id r' \<noteq> i
           \<Longrightarrow> league r' = league (f r) \<Longrightarrow> position r' \<noteq> position (f r)"
    and "\<And>r. team_id (f r) = team_id r"
  shows "update_team fail req tbl i f = Inr (map (\<lambda>r. if team_id r = i then f r else r) tbl)"
  using assms unfolding update_team_def position_taken_def list_ex_iff by auto

lemma shiftTeams_all_succeed:
  assumes "\<And>i. \<not> fail (Update_shift i)"
    and "distinct (map fst S)"
    and "sorted_wrt (\<lambda>x y. snd y < snd x) S"
    and "\<And>i p r. (i, p) \<in> set S \<Longrightarrow> r \<in> set tbl \<Longrightarrow> team_id r = i \<Longrightarrow> position r = p \<and> league r = L"
    and "\<And>r. r \<in> set tbl \<Longrightarrow> league r = L \<Longrightarrow> team_id r \<notin> fst ` set S \<Longrightarrow> position r - 1 \<notin> snd ` set S"
  shows "shiftTeams fail tbl S = map (\<lambda>r. if team_id r \<in> fst ` set S then shifted r else r) tbl"
  using assms
proof (induction S arbitrary: tbl)
  case Nil
  then show ?case by simp
next
  case (Cons x rest)
  obtain i p where x: "x = (i, p)" by (cases x)
  let ?f = "\<lambda>r::team. r\<lparr>previous_position := Some p, position := p + 1\<rparr>"
  let ?tbl' = "map (\<lambda>r. if team_id r = i then ?f r else r) tbl"
  have row_i: "\<And>r. r \<in> set tbl \<Longrightarrow> team_id r = i \<Longrightarrow> position r = p \<and> league r = L"
    using Cons.prems(4) [of i p] x by simp
  have lt: "\<And>j q. (j, q) \<in> set rest \<Longrightarrow> q < p"
    using Cons.prems(3) x by auto
  have notin: "i \<notin> fst ` set rest"
    using Cons.prems(2) x by auto
  have free: "\<And>r r'. r \<in> set tbl \<Longrightarrow> team_id r = i \<Longrightarrow> r' \<in> set tbl \<Longrightarrow> team_id r' \<noteq> i
           \<Longrightarrow> league r' = league (?f r) \<Longrightarrow> position r' \<noteq> position (?f r)"
  proof
    fix r r' assume r: "r \<in> set tbl" "team_id r = i" and r': "r' \<in> set tbl" "team_id r' \<noteq> i"
      and lg: "league r' = league (?f r)" and pos: "position r' = position (?f r)"
    have L: "league r' = L" using lg row_i [OF r] by simp
    have p1: "position r' = p + 1" using pos by simp
    show False
    proof (cases "team_id r' \<in> fst ` set rest")
      case True
      then obtain q where q: "(team_id r', q) \<in> set rest" by force
      then have "position r' = q" using Cons.prems(4) [of "team_id r'" q r'] r' x by simp
      with lt [OF q] p1 show False by simp
    next
      case False
      then have "team_id r' \<notin> fst ` set (x # rest)" using r' x by simp
      from Cons.prems(5) [OF r'(1) L this] have "position r' - 1 \<notin> snd ` set (x # rest)" .
      then show False using p1 x by simp
    qed
  qed
  have upd: "update_team fail (Update_shift i) tbl i ?f = Inr ?tbl'"
  proof (rule update_team_ok)
    show "\<not> fail (Update_shift i)" by (rule Cons.prems(1))
  next
    fix r r' assume "r \<in> set tbl" "team_id r = i" "r' \<in> set tbl" "team_id r' \<noteq> i"
      "league r' = league (?f r)"
    then show "position r' \<noteq> position (?f r)" by (rule free)
  next
    fix r :: team show "team_id (?f r) = team_id r" by simp
  qed
  have step: "shiftTeams fail tbl (x # rest) = shiftTeams fail ?tbl' rest"
    using upd x by simp
  have IH: "shiftTeams fail ?tbl' rest
      = map (\<lambda>r. if team_id r \<in> fst ` set rest then shifted r else r) ?tbl'"
  proof (rule Cons.IH)
    show "\<And>i. \<not> fail (Update_shift i)" by (rule Cons.prems(1))
    show "distinct (map fst rest)" using Cons.prems(2) by simp
    show "sorted_wrt (\<lambda>x y. snd y < snd x) rest" using Cons.prems(3) by simp
  next
    fix j q r assume jq: "(j, q) \<in> set rest" and r: "r \<in> set ?tbl'" and id: "team_id r = j"
    have "j \<noteq> i" using jq notin by force
    with r id have "r \<in> set tbl" by auto
    then show "position r = q \<and> league r = L"
      using Cons.prems(4) [of j q r] jq id by simp
  next
    fix r assume r: "r \<in> set ?tbl'" and L: "league r = L" and out: "team_id r \<notin> fst ` set rest"
    show "position r - 1 \<notin> snd ` set rest"
    proof (cases "team_id r = i")
      case True
      from r obtain r0 where r0: "r0 \<in> set tbl" "r = (if team_id r0 = i then ?f r0 else r0)"
        by auto
      with True have "position r = p + 1" by (cases "team_id r0 = i") simp_all
      then show ?thesis using lt by force
    next
      case False
      with r have rt: "r \<in> set tbl" by auto
      from False out x have "team_id r \<notin> fst ` set (x # rest)" by simp
      from Cons.prems(5) [OF rt L this] show ?thesis by simp
    qed
  qed
  have "map (\<lambda>r. if team_id r \<in> fst ` set rest then shifted r else r) ?tbl'
        = map (\<lambda>r. if team_id r \<in> fst ` set (x # rest) then shifted r else r) tbl"
    using notin row_i x by (auto simp: shifted_def)
  with step IH show ?case by simp
qed


subsection \<open>The selection of step 2\<close>

lemma teamsToShift_set:
  assumes "\<not> fail Select_teams_to_shift"
  shows "set (teamsToShift fail tbl lg lo hi)
           = (\<lambda>r. (team_id r, position r)) ` {r \<in> set tbl. in_range lg lo hi r}"
  using assms by (auto simp: teamsToShift_def in_range_def)

lemma distinct_map_sort_key:
  "distinct (map f (sort_key k xs)) = distinct (map f xs)"
proof -
  have "mset (map f (sort_key k xs)) = mset (map f xs)" by simp
  then show ?thesis by (rule mset_eq_imp_distinct_iff)
qed

lemma teamsToShift_distinct_ids:
  assumes "distinct (map team_id tbl)"
  shows "distinct (map fst (teamsToShift fail tbl lg lo hi))"
proof -
  have "distinct (map team_id (filter (\<lambda>r. league r = lg \<and> position r \<ge> lo \<and> position r < hi) tbl))"
    using assms by (rule distinct_map_filter)
  then show ?thesis
    by (simp add: teamsToShift_def rev_map [symmetric] distinct_map_sort_key comp_def)
qed

lemma distinct_positions_in_league:
  "distinct (map (\<lambda>t. (league t, position t)) xs)
     \<Longrightarrow> distinct (map position (filter (\<lambda>r. league r = lg \<and> Q r) xs))"
  by (induction xs) (auto simp: image_iff)

lemma filter_map_unchanged:
  "(\<And>x. x \<in> set xs \<Longrightarrow> P (g x) = P x \<and> (P x \<longrightarrow> g x = x))
     \<Longrightarrow> filter P (map g xs) = filter P xs"
  by (induction xs) auto

lemma distinct_map_eq:
  "distinct (map f xs) \<Longrightarrow> x \<in> set xs \<Longrightarrow> y \<in> set xs \<Longrightarrow> f x = f y \<Longrightarrow> x = y"
  by (auto simp: distinct_map inj_on_def)


subsection \<open>Steps 1 to 3 together\<close>

lemma in_set_mapD: "x \<in> set (map f xs) \<Longrightarrow> \<exists>y. y \<in> set xs \<and> x = f y"
  by auto

lemma updatePositions_spec:
  assumes ok: "writes_ok fail"
    and ids: "distinct (map team_id tbl)"
    and uniq: "distinct (map (\<lambda>t. (league t, position t)) tbl)"
    and tc: "tc \<in> set tbl"
    and below: "\<And>t. t \<in> set tbl \<Longrightarrow> league t = league tc \<Longrightarrow> position t < 99999"
    and gt: "position tc > position td"
  shows "updatePositions fail tbl (team_id tc) tc td
           = map (spec_ranking True (team_id tc) (league tc) (position tc) (position td)) tbl"
proof -
  let ?a = "team_id tc" and ?L = "league tc" and ?wp = "position tc" and ?lp = "position td"
  let ?g1 = "\<lambda>r. if team_id r = ?a then r\<lparr>position := 99999\<rparr> else r"
  let ?t1 = "map ?g1 tbl"
  let ?S = "teamsToShift fail ?t1 ?L ?lp ?wp"
  let ?h = "\<lambda>r. if team_id r \<in> fst ` set ?S then shifted r else r"
  let ?t2 = "map ?h ?t1"
  let ?f3 = "\<lambda>r::team. r\<lparr>previous_position := Some ?wp, position := ?lp\<rparr>"
  let ?g3 = "\<lambda>r. if team_id r = ?a then ?f3 r else r"
  have nf: "\<not> fail Update_step1" "\<not> fail Select_teams_to_shift" "\<not> fail Update_step3"
    "\<And>i. \<not> fail (Update_shift i)"
    using ok by (auto simp: writes_ok_def)
  have only_tc: "\<And>r. r \<in> set tbl \<Longrightarrow> team_id r = ?a \<Longrightarrow> r = tc"
    by (rule distinct_map_eq [OF ids _ tc])
  have at_wp: "\<And>r. r \<in> set tbl \<Longrightarrow> league r = ?L \<Longrightarrow> position r = ?wp \<Longrightarrow> r = tc"
    using distinct_map_eq [OF uniq _ tc] by simp
  have wp_small: "?wp < 99999" using below [OF tc] by simp
  \<comment> \<open>step 1\<close>
  have s1: "update_team fail Update_step1 tbl ?a (\<lambda>r. r\<lparr>position := 99999\<rparr>) = Inr ?t1"
  proof (rule update_team_ok)
    show "\<not> fail Update_step1" by (rule nf)
  next
    fix r r' assume "r \<in> set tbl" "team_id r = ?a" "r' \<in> set tbl" "team_id r' \<noteq> ?a"
      "league r' = league (r\<lparr>position := 99999\<rparr>)"
    then show "position r' \<noteq> position (r\<lparr>position := 99999\<rparr>)"
      using only_tc [of r] below [of r'] by auto
  next
    fix r :: team show "team_id (r\<lparr>position := 99999\<rparr>) = team_id r" by simp
  qed
  \<comment> \<open>the rows selected for the shift\<close>
  have rows: "filter (in_range ?L ?lp ?wp) ?t1 = filter (in_range ?L ?lp ?wp) tbl"
  proof (rule filter_map_unchanged)
    fix x assume x: "x \<in> set tbl"
    show "in_range ?L ?lp ?wp (?g1 x) = in_range ?L ?lp ?wp x
            \<and> (in_range ?L ?lp ?wp x \<longrightarrow> ?g1 x = x)"
      using only_tc [OF x] wp_small by (auto simp: in_range_def)
  qed
  have ids1: "distinct (map team_id ?t1)"
  proof -
    have e: "map team_id ?t1 = map team_id tbl" by (induction tbl) auto
    show ?thesis by (simp only: e ids)
  qed
  have S_set: "set ?S = (\<lambda>r. (team_id r, position r)) ` {r \<in> set tbl. in_range ?L ?lp ?wp r}"
  proof -
    have "{r \<in> set ?t1. in_range ?L ?lp ?wp r} = set (filter (in_range ?L ?lp ?wp) ?t1)"
      by auto
    also have "\<dots> = {r \<in> set tbl. in_range ?L ?lp ?wp r}"
      unfolding rows by auto
    finally show ?thesis
      using teamsToShift_set [where fail = fail and tbl = "?t1" and lg = "?L" and lo = "?lp" and hi = "?wp"] nf(2)
      by simp
  qed
  have S_ids: "\<And>r. r \<in> set tbl \<Longrightarrow> (team_id r \<in> fst ` set ?S) = in_range ?L ?lp ?wp r"
  proof -
    fix r assume r: "r \<in> set tbl"
    show "(team_id r \<in> fst ` set ?S) = in_range ?L ?lp ?wp r"
    proof
      assume "team_id r \<in> fst ` set ?S"
      then obtain r0 where r0: "r0 \<in> set tbl" "in_range ?L ?lp ?wp r0" "team_id r0 = team_id r"
        unfolding S_set by force
      then have "r0 = r" using distinct_map_eq [OF ids r0(1) r] by simp
      with r0 show "in_range ?L ?lp ?wp r" by simp
    next
      assume "in_range ?L ?lp ?wp r"
      with r show "team_id r \<in> fst ` set ?S" unfolding S_set by force
    qed
  qed
  have a_out: "?a \<notin> fst ` set ?S"
    using S_ids [OF tc] by (simp add: in_range_def)
  have S_sorted: "sorted_wrt (\<lambda>x y. snd y < snd x) ?S"
  proof -
    have d: "distinct (map position (filter (\<lambda>r. league r = ?L \<and> (position r \<ge> ?lp \<and> position r < ?wp)) tbl))"
      using uniq by (rule distinct_positions_in_league)
    let ?Z = "sort_key snd (map (\<lambda>r. (team_id r, position r)) (filter (in_range ?L ?lp ?wp) ?t1))"
    have "distinct (map snd ?Z)"
      using d unfolding rows by (simp add: distinct_map_sort_key comp_def in_range_def)
    moreover have "sorted (map snd ?Z)" by (rule sorted_sort_key)
    ultimately have "sorted_wrt (<) (map snd ?Z)" by (simp add: strict_sorted_iff)
    then have "sorted_wrt (\<lambda>x y. snd x < snd y) ?Z" by (simp add: sorted_wrt_map)
    then have "sorted_wrt (\<lambda>x y. snd y < snd x) (rev ?Z)" by (simp add: sorted_wrt_rev)
    moreover have "?S = rev ?Z" using nf(2) by (simp add: teamsToShift_def in_range_def)
    ultimately show ?thesis by simp
  qed
  \<comment> \<open>step 2\<close>
  have in_t1: "\<And>r. r \<in> set ?t1 \<Longrightarrow> team_id r \<noteq> ?a \<Longrightarrow> r \<in> set tbl"
    by auto
  have tc1: "\<And>r. r \<in> set ?t1 \<Longrightarrow> team_id r = ?a \<Longrightarrow> r = tc\<lparr>position := 99999\<rparr>"
  proof -
    fix r assume r: "r \<in> set ?t1" "team_id r = ?a"
    then obtain r0 where r0: "r0 \<in> set tbl" "r = ?g1 r0" by auto
    with r have "team_id r0 = ?a" by (cases "team_id r0 = ?a") simp_all
    with r0 only_tc [OF r0(1)] show "r = tc\<lparr>position := 99999\<rparr>" by simp
  qed
  have s2: "shiftTeams fail ?t1 ?S = ?t2"
  proof (rule shiftTeams_all_succeed [where L = "?L"])
    fix i show "\<not> fail (Update_shift i)" by (rule nf)
  next
    show "distinct (map fst ?S)" using ids1 by (rule teamsToShift_distinct_ids)
  next
    show "sorted_wrt (\<lambda>x y. snd y < snd x) ?S" by (rule S_sorted)
  next
    fix i p r assume ip: "(i, p) \<in> set ?S" and r: "r \<in> set ?t1" and id: "team_id r = i"
    from ip obtain r0 where r0: "r0 \<in> set tbl" "in_range ?L ?lp ?wp r0" "team_id r0 = i"
      "position r0 = p"
      unfolding S_set by auto
    have ia: "i \<noteq> ?a" using a_out ip by force
    then have "r \<in> set tbl" using in_t1 [OF r] id by simp
    then have "r = r0" using distinct_map_eq [OF ids _ r0(1)] id r0(3) by simp
    with r0 show "position r = p \<and> league r = ?L" by (simp add: in_range_def)
  next
    fix r assume r: "r \<in> set ?t1" and L: "league r = ?L" and out: "team_id r \<notin> fst ` set ?S"
    show "position r - 1 \<notin> snd ` set ?S"
    proof
      assume "position r - 1 \<in> snd ` set ?S"
      then obtain r0 where r0: "r0 \<in> set tbl" "in_range ?L ?lp ?wp r0" "position r0 = position r - 1"
        unfolding S_set by force
      show False
      proof (cases "team_id r = ?a")
        case True
        then have "position r = 99999" using tc1 [OF r] by simp
        with r0 wp_small show False by (simp add: in_range_def)
      next
        case False
        then have rt: "r \<in> set tbl" using in_t1 [OF r] by simp
        have nin: "\<not> in_range ?L ?lp ?wp r" using S_ids [OF rt] out by simp
        have "position r = ?wp" using r0 nin L by (auto simp: in_range_def)
        then have "r = tc" using at_wp [OF rt L] by simp
        with False show False by simp
      qed
    qed
  qed
  \<comment> \<open>step 3\<close>
  have s3: "update_team fail Update_step3 ?t2 ?a ?f3 = Inr (map ?g3 ?t2)"
  proof (rule update_team_ok)
    show "\<not> fail Update_step3" by (rule nf)
  next
    fix r :: team show "team_id (?f3 r) = team_id r" by simp
  next
    fix r r' assume r: "r \<in> set ?t2" "team_id r = ?a" and r': "r' \<in> set ?t2" "team_id r' \<noteq> ?a"
      and lg: "league r' = league (?f3 r)"
    from in_set_mapD [OF r(1)] obtain q where q: "q \<in> set ?t1" "r = ?h q" by blast
    have "team_id q = ?a" using q(2) r(2) by (cases "team_id q \<in> fst ` set ?S") (simp_all add: shifted_def)
    then have "league q = ?L" using tc1 [OF q(1)] by simp
    then have Lr: "league r = ?L" using q(2) by (cases "team_id q \<in> fst ` set ?S") (simp_all add: shifted_def)
    from in_set_mapD [OF r'(1)] obtain q' where q': "q' \<in> set ?t1" "r' = ?h q'" by blast
    have idq': "team_id q' \<noteq> ?a"
      using q'(2) r'(2) by (cases "team_id q' \<in> fst ` set ?S") (simp_all add: shifted_def)
    then have q't: "q' \<in> set tbl" using in_t1 [OF q'(1)] by simp
    have Lq': "league q' = ?L"
      using lg Lr q'(2) by (cases "team_id q' \<in> fst ` set ?S") (simp_all add: shifted_def)
    show "position r' \<noteq> position (?f3 r)"
    proof (cases "in_range ?L ?lp ?wp q'")
      case True
      then have "r' = shifted q'" using q'(2) S_ids [OF q't] by simp
      with True show ?thesis by (simp add: shifted_def in_range_def)
    next
      case False
      then have "r' = q'" using q'(2) S_ids [OF q't] by simp
      with False Lq' gt show ?thesis by (auto simp: in_range_def)
    qed
  qed
  have final: "map ?g3 ?t2 = map (spec_ranking True ?a ?L ?wp ?lp) tbl"
  proof -
    have "\<And>r. r \<in> set tbl \<Longrightarrow> ?g3 (?h (?g1 r)) = spec_ranking True ?a ?L ?wp ?lp r"
    proof -
      fix r assume r: "r \<in> set tbl"
      show "?g3 (?h (?g1 r)) = spec_ranking True ?a ?L ?wp ?lp r"
      proof (cases "team_id r = ?a")
        case True
        then have "r = tc" using only_tc [OF r] by simp
        then show ?thesis using a_out gt by (simp add: spec_ranking_def)
      next
        case False
        then show ?thesis
          using S_ids [OF r] gt by (simp add: spec_ranking_def shifted_def in_range_def)
      qed
    qed
    then show ?thesis by (simp add: comp_def)
  qed
  show ?thesis
    unfolding updatePositions_def Let_def
    by (simp only: s1 logged.simps s2 s3 final)
qed


subsection \<open>The fetch of the two teams\<close>

lemma find_by_id:
  "distinct (map team_id xs) \<Longrightarrow> t \<in> set xs \<Longrightarrow> find (\<lambda>r. team_id r = team_id t) xs = Some t"
  by (induction xs) (auto simp: image_iff)

lemma freshTeams_two:
  assumes "t \<in> set xs" "u \<in> set xs" "team_id t \<noteq> team_id u"
  shows "2 \<le> length (filter (\<lambda>r. team_id r = team_id t \<or> team_id r = team_id u) xs)"
proof -
  let ?F = "filter (\<lambda>r. team_id r = team_id t \<or> team_id r = team_id u) xs"
  have "{t, u} \<subseteq> set ?F" using assms by auto
  then have "card {t, u} \<le> card (set ?F)" by (intro card_mono) auto
  moreover have "t \<noteq> u" using assms(3) by auto
  then have "card {t, u} = 2" by simp
  moreover have "card (set ?F) \<le> length ?F" by (rule card_length)
  ultimately show ?thesis by linarith
qed

lemma freshTeams_one:
  assumes "distinct (map team_id xs)"
  shows "length (filter (\<lambda>r. team_id r = a \<or> team_id r = a) xs) < 2"
proof -
  have "length (filter (\<lambda>r. team_id r = a) xs) \<le> 1"
    using assms by (induction xs) (auto simp: image_iff filter_empty_conv)
  then show ?thesis by simp
qed

lemma spec_ranking_id:
  "\<not> (won \<and> wp > lp) \<Longrightarrow> map (spec_ranking won a lg wp lp) tbl = tbl"
  by (rule map_idI) (auto simp: spec_ranking_def)

lemma find_None_iff_ex: "(find P xs = None) = (\<not> list_ex P xs)"
  by (induction xs) auto

section \<open>Dispute and resubmission\<close>

lemma refreshData_reliable:
  "refreshData reliable v =
     v\<lparr>teams := sort_key position (db_teams v), challenges := db_challenges v,
       settings := (case db_settings v of None \<Rightarrow> settings v | Some s \<Rightarrow> Some s)\<rparr>"
  by (cases "db_settings v")
     (simp_all add: refreshData_def fetchTeams_def fetchChallenges_def fetchSettings_def reliable_def)

lemma validateScore_accept_ignores_cache:
  "validateScore reliable
      (w\<lparr>teams := t, settings := (case db_settings w of None \<Rightarrow> settings w | Some s \<Rightarrow> Some s)\<rparr>)
      challengeId True
   = (case find (\<lambda>c. challenge_id c = challengeId) (challenges w) of
        None \<Rightarrow> w\<lparr>teams := t, settings := (case db_settings w of None \<Rightarrow> settings w | Some s \<Rightarrow> Some s)\<rparr>
      | Some ch \<Rightarrow> (case score ch of
           None \<Rightarrow> w\<lparr>teams := t, settings := (case db_settings w of None \<Rightarrow> settings w | Some s \<Rightarrow> Some s)\<rparr>
         | Some sc \<Rightarrow> validateScore reliable w challengeId True))"
  by (cases "db_settings w")
     (simp_all add: validateScore_def Let_def refreshData_reliable reliable_def
        split: option.splits prod.splits)


lemma submitScore_reliable:
  "snd (submitScore reliable w i cs ds b)
     = w\<lparr>db_challenges := map (submitted i cs ds b) (db_challenges w),
          challenges := map (submitted i cs ds b) (db_challenges w)\<rparr>"
  by (simp add: submitScore_def update_challenge_def fetchChallenges_def reliable_def submitted_def)

lemma dispute_reliable:
  assumes "find (\<lambda>c. challenge_id c = i) (challenges w) = Some ch" and "score ch \<noteq> None"
  shows "validateScore reliable w i False
     = w\<lparr>db_challenges := map (disputed i) (db_challenges w),
          teams := sort_key position (db_teams w),
          challenges := map (disputed i) (db_challenges w),
          settings := (case db_settings w of None \<Rightarrow> settings w | Some s \<Rightarrow> Some s)\<rparr>"
  using assms
  by (cases "db_settings w")
     (auto simp: validateScore_def refreshData_reliable update_challenge_def reliable_def disputed_def)

lemma resubmit_restores:
  "submitted i cs ds b (disputed i (submitted i cs ds b c)) = submitted i cs ds b c"
  by (simp add: submitted_def disputed_def)

lemma resubmit_idem:
  "submitted i cs ds b (submitted i cs ds b c) = submitted i cs ds b c"
  by (simp add: submitted_def)

lemma find_submitted_score:
  assumes "find (\<lambda>c. challenge_id c = i) (map (submitted i cs ds b) xs) = Some ch"
  shows "score ch = Some (cs, ds)"
proof -
  from assms have "challenge_id ch = i" and "ch \<in> set (map (submitted i cs ds b) xs)"
    by (auto simp: find_Some_iff)
  then obtain c0 where "ch = submitted i cs ds b c0" by auto
  with \<open>challenge_id ch = i\<close> show ?thesis
    by (cases "challenge_id c0 = i") (simp_all add: submitted_def score_def)
qed

lemma roundtrip:
  "validateScore reliable
      (snd (submitScore reliable
              (validateScore reliable (snd (submitScore reliable w i cs ds b)) i False)
              i cs ds b))
      i True
   = validateScore reliable (snd (submitScore reliable w i cs ds b)) i True"
proof -
  let ?T1 = "map (submitted i cs ds b) (db_challenges w)"
  let ?w1 = "w\<lparr>db_challenges := ?T1, challenges := ?T1\<rparr>"
  have w1: "snd (submitScore reliable w i cs ds b) = ?w1" by (rule submitScore_reliable)
  show ?thesis
  proof (cases "find (\<lambda>c. challenge_id c = i) ?T1")
    case None
    then have "validateScore reliable ?w1 i False = ?w1"
      by (simp add: validateScore_def)
    moreover have "snd (submitScore reliable ?w1 i cs ds b) = ?w1"
      by (simp add: submitScore_reliable resubmit_idem comp_def)
    ultimately show ?thesis by (simp add: w1)
  next
    case (Some ch)
    have sc: "score ch = Some (cs, ds)" using Some by (rule find_submitted_score)
    have f1: "find (\<lambda>c. challenge_id c = i) (challenges ?w1) = Some ch" using Some by simp
    have d: "validateScore reliable ?w1 i False
       = ?w1\<lparr>db_challenges := map (disputed i) ?T1,
              teams := sort_key position (db_teams w),
              challenges := map (disputed i) ?T1,
              settings := (case db_settings w of None \<Rightarrow> settings w | Some s \<Rightarrow> Some s)\<rparr>"
      using dispute_reliable [OF f1] sc by (cases "db_settings w") simp_all
    have r: "snd (submitScore reliable (validateScore reliable ?w1 i False) i cs ds b)
       = ?w1\<lparr>teams := sort_key position (db_teams w),
              settings := (case db_settings ?w1 of None \<Rightarrow> settings ?w1 | Some s \<Rightarrow> Some s)\<rparr>"
      by (cases "db_settings w") (simp_all add: d submitScore_reliable resubmit_restores comp_def)
    show ?thesis
      unfolding w1 r
      using validateScore_accept_ignores_cache [of ?w1 "sort_key position (db_teams w)" i] f1 sc
      by simp
  qed
qed

lemma length_filter_sort_key:
  "length (filter P (sort_key f xs)) = length (filter P xs)"
  by (simp add: filter_sort)

lemma db_teams_refreshData: "db_teams (refreshData fail v) = db_teams v"
  by (simp add: refreshData_def fetchTeams_def fetchChallenges_def fetchSettings_def
        split: option.splits)

section \<open>Dense permutations and the invariant\<close>

subsection \<open>Dense permutations\<close>

lemma dense_mset:
  "dense lg tbl = (mset (positions_of lg tbl) = mset [1..int (length (positions_of lg tbl))])"
proof
  assume "dense lg tbl"
  then have "mset (sort (positions_of lg tbl)) = mset [1..int (length (positions_of lg tbl))]"
    by (simp add: dense_def)
  then show "mset (positions_of lg tbl) = mset [1..int (length (positions_of lg tbl))]"
    by simp
next
  assume "mset (positions_of lg tbl) = mset [1..int (length (positions_of lg tbl))]"
  then have "sort (positions_of lg tbl) = [1..int (length (positions_of lg tbl))]"
    by (intro properties_for_sort) simp_all
  then show "dense lg tbl" by (simp add: dense_def)
qed

lemma dense_set:
  assumes "dense lg tbl"
  shows "set (positions_of lg tbl) = {1..int (length (positions_of lg tbl))}"
    and "distinct (positions_of lg tbl)"
proof -
  have m: "mset (positions_of lg tbl) = mset [1..int (length (positions_of lg tbl))]"
    using assms by (simp add: dense_mset)
  from m have "set_mset (mset (positions_of lg tbl))
                 = set_mset (mset [1..int (length (positions_of lg tbl))])" by simp
  then show "set (positions_of lg tbl) = {1..int (length (positions_of lg tbl))}" by simp
  from mset_eq_imp_distinct_iff [OF m] show "distinct (positions_of lg tbl)" by simp
qed

lemma dense_row_at:
  assumes "dense lg tbl" and "1 \<le> p" and "p \<le> int (length (positions_of lg tbl))"
  shows "\<exists>r\<in>set tbl. league r = lg \<and> position r = p"
proof -
  have "p \<in> set (positions_of lg tbl)" using dense_set(1) [OF assms(1)] assms(2,3) by simp
  then show ?thesis by (auto simp: positions_of_def)
qed

lemma dense_position_bounds:
  assumes "dense lg tbl" and "r \<in> set tbl" and "league r = lg"
  shows "1 \<le> position r" and "position r \<le> int (length (positions_of lg tbl))"
proof -
  have "position r \<in> set (positions_of lg tbl)" using assms(2,3) by (auto simp: positions_of_def)
  then have "position r \<in> {1..int (length (positions_of lg tbl))}"
    using dense_set(1) [OF assms(1)] by simp
  then show "1 \<le> position r" and "position r \<le> int (length (positions_of lg tbl))" by simp_all
qed

lemma dense_unique_row:
  assumes "dense lg tbl" and "r \<in> set tbl" and "r' \<in> set tbl"
    and "league r = lg" and "league r' = lg" and "position r = position r'"
  shows "r = r'"
proof -
  have "distinct (map position (filter (\<lambda>t. league t = lg) tbl))"
    using dense_set(2) [OF assms(1)] by (simp add: positions_of_def)
  moreover have "r \<in> set (filter (\<lambda>t. league t = lg) tbl)" "r' \<in> set (filter (\<lambda>t. league t = lg) tbl)"
    using assms by simp_all
  ultimately show ?thesis using assms(6) by (rule distinct_map_eq)
qed

lemma moved_permutes:
  assumes "1 \<le> lp" and "lp < wp" and "wp \<le> n"
  shows "image_mset (moved wp lp) (mset [1..n]) = mset [1..n]"
proof -
  have inj: "inj_on (moved wp lp) {1..n}"
    using assms by (auto simp: inj_on_def moved_def split: if_splits)
  have sub: "moved wp lp ` {1..n} \<subseteq> {1..n}"
    using assms by (auto simp: moved_def)
  have img: "moved wp lp ` {1..n} = {1..n}"
    by (rule endo_inj_surj [OF _ sub inj]) simp
  have "mset [1..n] = mset_set {1..n}"
    using mset_set_set [of "[1..n]"] by simp
  then show ?thesis
    by (simp add: image_mset_mset_set [OF inj] img)
qed


lemma dense_all:
  assumes "dense mens tbl" and "dense womens tbl"
  shows "dense lg tbl"
  using assms by (cases lg) simp_all

lemma spec_ranking_dense:
  assumes ids: "distinct (map team_id tbl)"
    and dm: "dense mens tbl" and dw: "dense womens tbl"
    and tc: "tc \<in> set tbl" and td: "td \<in> set tbl"
    and gt: "position tc > position td"
  shows "dense lg (map (spec_ranking True (team_id tc) (league tc) (position tc) (position td)) tbl)"
proof -
  let ?a = "team_id tc" and ?L = "league tc" and ?wp = "position tc" and ?lp = "position td"
  let ?sp = "spec_ranking True ?a ?L ?wp ?lp"
  let ?m = "\<lambda>p. if lg = ?L then moved ?wp ?lp p else p"
  have all: "\<And>l. dense l tbl" using dm dw by (rule dense_all)
  have lg_pres: "\<And>r. league (?sp r) = league r" by (simp add: spec_ranking_def)
  have filt: "filter (\<lambda>t. league t = lg) (map ?sp tbl) = map ?sp (filter (\<lambda>t. league t = lg) tbl)"
    by (simp add: filter_map comp_def lg_pres)
  have pos: "\<And>r. r \<in> set tbl \<Longrightarrow> league r = lg \<Longrightarrow> position (?sp r) = ?m (position r)"
  proof -
    fix r assume r: "r \<in> set tbl" and l: "league r = lg"
    show "position (?sp r) = ?m (position r)"
    proof (cases "team_id r = ?a")
      case True
      then have "r = tc" using distinct_map_eq [OF ids r tc] by simp
      then show ?thesis using l gt by (simp add: spec_ranking_def moved_def)
    next
      case False
      show ?thesis
      proof (cases "lg = ?L")
        case True
        have "position r \<noteq> ?wp"
        proof
          assume "position r = ?wp"
          then have "r = tc" using dense_unique_row [OF all r tc l] True by simp
          with False show False by simp
        qed
        then show ?thesis using False True l gt by (simp add: spec_ranking_def moved_def)
      next
        case F: False
        then show ?thesis using False l gt by (simp add: spec_ranking_def)
      qed
    qed
  qed
  have ps: "positions_of lg (map ?sp tbl) = map ?m (positions_of lg tbl)"
    unfolding positions_of_def filt by (simp add: pos)
  show ?thesis
  proof (cases "lg = ?L")
    case False
    then have "positions_of lg (map ?sp tbl) = positions_of lg tbl" using ps by simp
    then show ?thesis using all [of lg] by (simp add: dense_def)
  next
    case True
    let ?n = "int (length (positions_of lg tbl))"
    have lp1: "1 \<le> ?lp" using dense_position_bounds(1) [OF all td] by simp
    have wpn: "?wp \<le> ?n" using dense_position_bounds(2) [OF all tc] True by simp
    have "mset (positions_of lg (map ?sp tbl)) = image_mset (moved ?wp ?lp) (mset (positions_of lg tbl))"
      using ps True by simp
    also have "\<dots> = image_mset (moved ?wp ?lp) (mset [1..?n])"
      using all [of lg] by (simp add: dense_mset)
    also have "\<dots> = mset [1..?n]" using lp1 gt wpn by (rule moved_permutes)
    finally have "mset (positions_of lg (map ?sp tbl)) = mset [1..?n]" .
    moreover have "length (positions_of lg (map ?sp tbl)) = length (positions_of lg tbl)"
      using ps by simp
    ultimately show ?thesis by (simp add: dense_mset)
  qed
qed


subsection \<open>A position update that the constraint blocks\<close>

lemma dense_unique_positions:
  assumes "distinct (map team_id tbl)" and "dense mens tbl" and "dense womens tbl"
  shows "distinct (map (\<lambda>t. (league t, position t)) tbl)"
proof -
  have d: "distinct tbl" using assms(1) by (simp add: distinct_map)
  have "inj_on (\<lambda>t. (league t, position t)) (set tbl)"
  proof (rule inj_onI)
    fix r r' assume r: "r \<in> set tbl" and r': "r' \<in> set tbl"
      and e: "(league r, position r) = (league r', position r')"
    have "dense (league r) tbl" using assms(2,3) by (rule dense_all)
    from dense_unique_row [OF this r r'] e show "r = r'" by simp
  qed
  with d show ?thesis by (simp add: distinct_map)
qed

lemma update_team_conflict:
  assumes "r \<in> set tbl" and "team_id r = i" and "r' \<in> set tbl"
    and "team_id r' \<noteq> team_id (f r)" and "league r' = league (f r)"
    and "position r' = position (f r)"
  shows "logged (update_team fail req tbl i f) tbl = tbl"
proof -
  have "list_ex (\<lambda>r. team_id r = i \<and> position_taken tbl (f r)) tbl"
    unfolding list_ex_iff position_taken_def using assms by blast
  then show ?thesis by (simp add: update_team_def)
qed

lemma shiftTeams_all_fail:
  "(\<And>i p. (i, p) \<in> set S \<Longrightarrow>
       logged (update_team fail (Update_shift i) tbl i
                 (\<lambda>r. r\<lparr>previous_position := Some p, position := p + 1\<rparr>)) tbl = tbl)
     \<Longrightarrow> shiftTeams fail tbl S = tbl"
  by (induction S) auto

lemma updatePositions_blocked:
  assumes ids: "distinct (map team_id tbl)"
    and dm: "dense mens tbl" and dw: "dense womens tbl"
    and tc: "tc \<in> set tbl" and td: "td \<in> set tbl"
    and gt: "position tc > position td"
    and r9: "r9 \<in> set tbl" "league r9 = league tc" "position r9 = 99999"
  shows "updatePositions fail tbl (team_id tc) tc td = tbl"
proof -
  let ?a = "team_id tc" and ?L = "league tc" and ?wp = "position tc" and ?lp = "position td"
  let ?n = "int (length (positions_of ?L tbl))"
  have all: "\<And>l. dense l tbl" using dm dw by (rule dense_all)
  have only_tc: "\<And>r. r \<in> set tbl \<Longrightarrow> team_id r = ?a \<Longrightarrow> r = tc"
    by (rule distinct_map_eq [OF ids _ tc])
  have lp1: "1 \<le> ?lp" using dense_position_bounds(1) [OF all td] by simp
  have wpn: "?wp \<le> ?n" using dense_position_bounds(2) [OF all tc] by simp
  \<comment> \<open>step 1\<close>
  have s1: "logged (update_team fail Update_step1 tbl ?a (\<lambda>r. r\<lparr>position := 99999\<rparr>)) tbl = tbl"
  proof (cases "tc = r9")
    case True
    have "tc\<lparr>position := position tc\<rparr> = tc" by simp
    then have "tc\<lparr>position := 99999\<rparr> = tc" using True r9(3) by simp
    then have "map (\<lambda>r. if team_id r = ?a then r\<lparr>position := 99999\<rparr> else r) tbl = tbl"
      using only_tc by (intro map_idI) auto
    then show ?thesis by (simp add: update_team_def)
  next
    case False
    then have "team_id r9 \<noteq> ?a" using only_tc [OF r9(1)] by auto
    then show ?thesis
      using r9 by (intro update_team_conflict [OF tc _ r9(1)]) simp_all
  qed
  \<comment> \<open>step 2\<close>
  have s2: "shiftTeams fail tbl (teamsToShift fail tbl ?L ?lp ?wp) = tbl"
  proof (cases "fail Select_teams_to_shift")
    case True
    then show ?thesis by (simp add: teamsToShift_def)
  next
    case False
    show ?thesis
    proof (rule shiftTeams_all_fail)
      fix i p assume "(i, p) \<in> set (teamsToShift fail tbl ?L ?lp ?wp)"
      then obtain r where r: "r \<in> set tbl" "team_id r = i" "position r = p" "league r = ?L"
        "?lp \<le> p" "p < ?wp"
        unfolding teamsToShift_set [where fail = fail, OF False] by (auto simp: in_range_def)
      have "1 \<le> p + 1" "p + 1 \<le> ?n" using r(5,6) lp1 wpn by simp_all
      from dense_row_at [OF all this] obtain r' where
        r': "r' \<in> set tbl" "league r' = ?L" "position r' = p + 1" by blast
      have "team_id r' \<noteq> i"
      proof
        assume "team_id r' = i"
        then have "r' = r" using distinct_map_eq [OF ids r'(1) r(1)] r(2) by simp
        with r(3) r'(3) show False by simp
      qed
      then show "logged (update_team fail (Update_shift i) tbl i
                 (\<lambda>r. r\<lparr>previous_position := Some p, position := p + 1\<rparr>)) tbl = tbl"
        using r r' by (intro update_team_conflict [OF r(1) r(2) r'(1)]) simp_all
    qed
  qed
  \<comment> \<open>step 3\<close>
  have s3: "logged (update_team fail Update_step3 tbl ?a
                      (\<lambda>r. r\<lparr>previous_position := Some ?wp, position := ?lp\<rparr>)) tbl = tbl"
  proof -
    have "?lp \<le> ?n" using gt wpn by simp
    from dense_row_at [OF all lp1 this] obtain r' where
      r': "r' \<in> set tbl" "league r' = ?L" "position r' = ?lp" by blast
    have "team_id r' \<noteq> ?a" using only_tc [OF r'(1)] r'(3) gt by auto
    then show ?thesis
      using r' by (intro update_team_conflict [OF tc _ r'(1)]) simp_all
  qed
  show ?thesis
    unfolding updatePositions_def Let_def by (simp only: s1 s2 s3)
qed

lemma updatePositions_dense:
  assumes ok: "writes_ok fail"
    and ids: "distinct (map team_id tbl)"
    and dm: "dense mens tbl" and dw: "dense womens tbl"
    and tc: "tc \<in> set tbl" and td: "td \<in> set tbl"
    and gt: "position tc > position td"
  shows "dense lg (updatePositions fail tbl (team_id tc) tc td)"
proof (cases "\<forall>t\<in>set tbl. league t = league tc \<longrightarrow> position t < 99999")
  case True
  have uniq: "distinct (map (\<lambda>t. (league t, position t)) tbl)"
    using ids dm dw by (rule dense_unique_positions)
  have "updatePositions fail tbl (team_id tc) tc td
          = map (spec_ranking True (team_id tc) (league tc) (position tc) (position td)) tbl"
    using True by (intro updatePositions_spec [OF ok ids uniq tc _ gt]) blast
  then show ?thesis using spec_ranking_dense [OF ids dm dw tc td gt] by simp
next
  case False
  then obtain t where t: "t \<in> set tbl" "league t = league tc" "99999 \<le> position t" by force
  have all: "\<And>l. dense l tbl" using dm dw by (rule dense_all)
  have "position t \<le> int (length (positions_of (league tc) tbl))"
    using dense_position_bounds(2) [OF all t(1)] t(2) by simp
  then have "99999 \<le> int (length (positions_of (league tc) tbl))" using t(3) by simp
  from dense_row_at [OF all _ this] obtain r9 where
    "r9 \<in> set tbl" "league r9 = league tc" "position r9 = 99999" by auto
  from updatePositions_blocked [OF ids dm dw tc td gt this]
  show ?thesis using all by simp
qed


subsection \<open>What no position update changes\<close>

lemma update_team_keeps:
  assumes "\<And>r. team_id (f r) = team_id r" and "\<And>r. league (f r) = league r"
  shows "map team_id (logged (update_team fail req tbl i f) tbl) = map team_id tbl"
    and "map league (logged (update_team fail req tbl i f) tbl) = map league tbl"
  using assms by (simp_all add: update_team_def comp_def)

lemma shiftTeams_keeps:
  "map team_id (shiftTeams fail tbl S) = map team_id tbl
   \<and> map league (shiftTeams fail tbl S) = map league tbl"
proof (induction S arbitrary: tbl)
  case Nil
  then show ?case by simp
next
  case (Cons x S)
  obtain i p where x: "x = (i, p)" by (cases x)
  show ?case
    unfolding x shiftTeams.simps
    by (simp add: Cons.IH update_team_keeps)
qed

lemma updatePositions_keeps:
  "map team_id (updatePositions fail tbl a tc td) = map team_id tbl"
  "map league (updatePositions fail tbl a tc td) = map league tbl"
  unfolding updatePositions_def Let_def
  by (simp_all add: update_team_keeps shiftTeams_keeps)

lemma count_by_league:
  "length (filter (\<lambda>t. league t = lg) tbl) = length (filter (\<lambda>l. l = lg) (map league tbl))"
  by (simp add: filter_map comp_def)

lemma teams_refreshData:
  "teams (refreshData fail v) = (if fail Select_teams then teams v else sort_key position (db_teams v))"
  by (simp add: refreshData_def fetchTeams_def fetchChallenges_def fetchSettings_def
        split: option.splits)

lemma find_SomeD: "find P xs = Some x \<Longrightarrow> P x \<and> x \<in> set xs"
  by (induction xs) (auto split: if_splits)

lemma validateScore_db_teams:
  "db_teams (validateScore fail w i v) = db_teams w
   \<or> (\<exists>tc td. tc \<in> set (db_teams w) \<and> td \<in> set (db_teams w) \<and> position td < position tc
         \<and> db_teams (validateScore fail w i v)
             = updatePositions fail (db_teams w) (team_id tc) tc td)"
proof (cases "find (\<lambda>c. challenge_id c = i) (challenges w)")
  case None
  then show ?thesis by (simp add: validateScore_def)
next
  case (Some ch)
  show ?thesis
  proof (cases "score ch")
    case None
    with Some show ?thesis by (simp add: validateScore_def)
  next
    case sc: (Some p)
    obtain cs ds where p: "p = (cs, ds)" by (cases p)
    let ?fresh = "filter (\<lambda>t. team_id t = challenger_team_id ch \<or> team_id t = challenged_team_id ch)
                    (db_teams w)"
    show ?thesis
    proof (cases "v \<and> winnerId_of ch cs ds = challenger_team_id ch \<and> \<not> fail Select_fresh_teams
                  \<and> \<not> length ?fresh < 2")
      case False
      then show ?thesis
        using Some sc p by (auto simp: validateScore_def Let_def db_teams_refreshData)
    next
      case True
      show ?thesis
      proof (cases "find (\<lambda>t. team_id t = challenger_team_id ch) ?fresh")
        case None
        then show ?thesis
          using Some sc p True by (simp add: validateScore_def Let_def db_teams_refreshData)
      next
        case tc: (Some tc)
        show ?thesis
        proof (cases "find (\<lambda>t. team_id t = challenged_team_id ch) ?fresh")
          case None
          then show ?thesis
            using Some sc p True tc by (simp add: validateScore_def Let_def db_teams_refreshData)
        next
          case td: (Some td)
          have m: "tc \<in> set (db_teams w)" "team_id tc = challenger_team_id ch" "td \<in> set (db_teams w)"
            using find_SomeD [OF tc] find_SomeD [OF td] by auto
          show ?thesis
          proof (cases "position td < position tc")
            case False
            then show ?thesis
              using Some sc p True tc td by (simp add: validateScore_def Let_def db_teams_refreshData)
          next
            case gt: True
            have "db_teams (validateScore fail w i v)
                    = updatePositions fail (db_teams w) (team_id tc) tc td"
              using Some sc p True tc td gt m(2)
              by (simp add: validateScore_def Let_def db_teams_refreshData)
            with m gt show ?thesis by blast
          qed
        qed
      qed
    qed
  qed
qed

lemma validateScore_teams:
  "teams (validateScore fail w i v) = teams w
   \<or> teams (validateScore fail w i v) = sort_key position (db_teams (validateScore fail w i v))"
  by (auto simp: validateScore_def Let_def teams_refreshData db_teams_refreshData
        split: option.splits prod.splits)


subsection \<open>Every operation keeps the invariant\<close>

lemma store_inv_cache:
  assumes "store_inv w" and "db_teams w' = db_teams w"
    and "teams w' = teams w \<or> teams w' = sort_key position (db_teams w')"
  shows "store_inv w'"
  using assms by (auto simp: store_inv_def length_filter_sort_key)

lemma dense_append_bottom:
  assumes d: "dense lg tbl" and l: "league r = lg"
    and p: "position r = int (length (positions_of lg tbl)) + 1"
  shows "dense lg' (tbl @ [r]) = dense lg' tbl"
proof (cases "lg' = lg")
  case False
  then have "positions_of lg' (tbl @ [r]) = positions_of lg' tbl"
    using l by (simp add: positions_of_def)
  then show ?thesis by (simp add: dense_def)
next
  case True
  let ?n = "int (length (positions_of lg tbl))"
  have ps: "positions_of lg (tbl @ [r]) = positions_of lg tbl @ [?n + 1]"
    using l p by (simp add: positions_of_def)
  have up: "[1..?n + 1] = [1..?n] @ [?n + 1]"
    using upto_rec2 [of 1 "?n + 1"] by simp
  have "mset (positions_of lg (tbl @ [r])) = mset [1..?n + 1]"
    using d by (simp add: ps up dense_mset)
  moreover have "int (length (positions_of lg (tbl @ [r]))) = ?n + 1"
    by (simp add: ps)
  ultimately have "dense lg (tbl @ [r])" by (simp add: dense_mset)
  with d True show ?thesis by simp
qed

lemma createTeam_inv:
  assumes inv: "store_inv w"
  shows "store_inv (fst (createTeam fail new_id w name creatorId lg))"
proof -
  let ?nc = "int (length (filter (\<lambda>t. league t = lg) (teams w))) + 1"
  let ?row = "\<lparr>team_id = new_id, team_name = name, creator_id = creatorId, league = lg,
                position = ?nc, previous_position = Some ?nc\<rparr>"
  let ?tbl = "db_teams w"
  show ?thesis
  proof (cases "insert_team fail ?tbl ?row")
    case (Inl e)
    then show ?thesis using inv by (simp add: createTeam_def Let_def)
  next
    case (Inr tbl')
    then have fresh: "new_id \<notin> team_id ` set ?tbl"
      and free: "\<And>r. r \<in> set ?tbl \<Longrightarrow> league r = lg \<Longrightarrow> position r \<noteq> ?nc"
      and tbl': "tbl' = ?tbl @ [?row]"
      by (auto simp: insert_team_def position_taken_def list_ex_iff split: if_splits)
    let ?w' = "fst (createTeam fail new_id w name creatorId lg)"
    have res: "?w' = refreshData fail (w\<lparr>db_teams := tbl'\<rparr>)"
      using Inr by (simp add: createTeam_def Let_def)
    have dall: "\<And>l. dense l ?tbl" using inv by (auto simp: store_inv_def intro: dense_all)
    let ?nd = "int (length (positions_of lg ?tbl))"
    have le: "?nc \<le> ?nd + 1" using inv by (simp add: store_inv_def positions_of_def)
    have "\<not> ?nc \<le> ?nd"
    proof
      assume "?nc \<le> ?nd"
      then obtain r where "r \<in> set ?tbl" "league r = lg" "position r = ?nc"
        using dense_row_at [OF dall, of ?nc lg] by auto
      with free show False by blast
    qed
    with le have eq: "?nc = ?nd + 1" by simp
    have dense': "\<And>l. dense l tbl'"
      unfolding tbl' using dense_append_bottom [OF dall, of ?row lg] eq dall by simp
    have ids': "distinct (map team_id tbl')"
      using inv fresh by (simp add: tbl' store_inv_def)
    have cnt: "\<And>l. length (filter (\<lambda>t. league t = l) (teams w))
                    \<le> length (filter (\<lambda>t. league t = l) tbl')"
    proof -
      fix l
      have "length (filter (\<lambda>t. league t = l) (teams w)) \<le> length (filter (\<lambda>t. league t = l) ?tbl)"
        using inv by (simp add: store_inv_def)
      also have "\<dots> \<le> length (filter (\<lambda>t. league t = l) tbl')" by (simp add: tbl')
      finally show "length (filter (\<lambda>t. league t = l) (teams w))
                    \<le> length (filter (\<lambda>t. league t = l) tbl')" .
    qed
    have mid: "store_inv (w\<lparr>db_teams := tbl'\<rparr>)"
      using ids' dense' cnt by (simp add: store_inv_def)
    show ?thesis
      unfolding res
      by (rule store_inv_cache [OF mid]) (auto simp: db_teams_refreshData teams_refreshData)
  qed
qed

lemma validateScore_inv:
  assumes inv: "store_inv w" and ok: "writes_ok fail"
  shows "store_inv (validateScore fail w i v)"
proof -
  let ?w' = "validateScore fail w i v"
  have ids: "distinct (map team_id (db_teams w))"
    and dm: "dense mens (db_teams w)" and dw: "dense womens (db_teams w)"
    using inv by (simp_all add: store_inv_def)
  have keep: "map team_id (db_teams ?w') = map team_id (db_teams w)
              \<and> map league (db_teams ?w') = map league (db_teams w)
              \<and> dense mens (db_teams ?w') \<and> dense womens (db_teams ?w')"
    using validateScore_db_teams [of fail w i v]
  proof
    assume "db_teams ?w' = db_teams w"
    then show ?thesis using dm dw by simp
  next
    assume "\<exists>tc td. tc \<in> set (db_teams w) \<and> td \<in> set (db_teams w) \<and> position td < position tc
         \<and> db_teams ?w' = updatePositions fail (db_teams w) (team_id tc) tc td"
    then obtain tc td where tc: "tc \<in> set (db_teams w)" and td: "td \<in> set (db_teams w)"
      and gt: "position td < position tc"
      and e: "db_teams ?w' = updatePositions fail (db_teams w) (team_id tc) tc td" by blast
    show ?thesis
      unfolding e
      using updatePositions_dense [OF ok ids dm dw tc td gt]
      by (simp add: updatePositions_keeps)
  qed
  have cnt: "\<And>l. length (filter (\<lambda>t. league t = l) (db_teams ?w'))
                 = length (filter (\<lambda>t. league t = l) (db_teams w))"
    using keep by (simp add: count_by_league)
  have "\<And>l. length (filter (\<lambda>t. league t = l) (teams ?w'))
                 \<le> length (filter (\<lambda>t. league t = l) (db_teams ?w'))"
  proof -
    fix l
    from validateScore_teams [of fail w i v]
    show "length (filter (\<lambda>t. league t = l) (teams ?w'))
                 \<le> length (filter (\<lambda>t. league t = l) (db_teams ?w'))"
    proof
      assume "teams ?w' = teams w"
      then show ?thesis using inv cnt by (simp add: store_inv_def)
    next
      assume "teams ?w' = sort_key position (db_teams ?w')"
      then show ?thesis by (simp add: length_filter_sort_key)
    qed
  qed
  with keep ids show ?thesis by (simp add: store_inv_def)
qed

lemma undisturbed_inv: "undisturbed w \<Longrightarrow> store_inv w"
proof (induction rule: undisturbed.induct)
  case (initial s)
  then show ?case by (simp add: store_inv_def dense_def positions_of_def)
next
  case (createTeam w fail new_id name creatorId lg)
  then show ?case by (simp add: createTeam_inv)
next
  case (createChallenge w fail new_id a b)
  then show ?case
    by (auto simp: createChallenge_def fetchChallenges_def store_inv_def
          split: option.splits sum.splits)
next
  case (respondToChallenge w fail i accept)
  then show ?case by (simp add: respondToChallenge_def store_inv_def)
next
  case (submitScore w fail i cs ds sb)
  then show ?case
    by (auto simp: submitScore_def fetchChallenges_def store_inv_def split: sum.splits)
next
  case (validateScore w fail i valid)
  then show ?case by (simp add: validateScore_inv)
next
  case (refreshData w fail)
  have a: "db_teams (refreshData fail w) = db_teams w" by (rule db_teams_refreshData)
  have b: "teams (refreshData fail w) = teams w
           \<or> teams (refreshData fail w) = sort_key position (db_teams (refreshData fail w))"
    by (simp add: teams_refreshData db_teams_refreshData)
  show ?case by (rule store_inv_cache [OF refreshData.IH a b])
qed


lemma createTeam_counts_table:
  assumes inv: "store_inv w"
    and res: "snd (createTeam fail new_id w name creatorId lg) = Some t"
  shows "position t = int (length (filter (\<lambda>t. league t = lg) (db_teams w))) + 1"
proof -
  let ?nc = "int (length (filter (\<lambda>t. league t = lg) (teams w))) + 1"
  let ?row = "\<lparr>team_id = new_id, team_name = name, creator_id = creatorId, league = lg,
                position = ?nc, previous_position = Some ?nc\<rparr>"
  let ?tbl = "db_teams w"
  let ?nd = "int (length (positions_of lg ?tbl))"
  from res obtain tbl' where ins: "insert_team fail ?tbl ?row = Inr tbl'" and t: "t = ?row"
    by (auto simp: createTeam_def Let_def split: sum.splits)
  from ins have free: "\<And>r. r \<in> set ?tbl \<Longrightarrow> league r = lg \<Longrightarrow> position r \<noteq> ?nc"
    by (auto simp: insert_team_def position_taken_def list_ex_iff split: if_splits)
  have d: "dense lg ?tbl" using inv by (auto simp: store_inv_def intro: dense_all)
  have le: "?nc \<le> ?nd + 1" using inv by (simp add: store_inv_def positions_of_def)
  have "\<not> ?nc \<le> ?nd"
  proof
    assume "?nc \<le> ?nd"
    then obtain r where "r \<in> set ?tbl" "league r = lg" "position r = ?nc"
      using dense_row_at [OF d, of ?nc] by auto
    with free show False by blast
  qed
  with le have "?nc = ?nd + 1" by simp
  then show ?thesis using t by (simp add: positions_of_def)
qed

section \<open>The claims\<close>

subsection \<open>C1: the ranking update of validateScore\<close>

text \<open>
  C1. When \<^verbatim>\<open>validateScore\<close> is called with \<^verbatim>\<open>accept = true\<close> on a challenge the provider
  knows with a submitted score, the \<^verbatim>\<open>teams\<close> table afterwards is the table before with the
  reference ranking function \<open>spec_ranking\<close> applied to every row: if the challenger is
  the computed winner and its position is greater than the challenged team's, the teams
  of the challenger's league with \<open>loserPos \<le> p < winnerOldPos\<close> end at \<open>p + 1\<close> with
  previous position \<open>p\<close>, the challenger ends at \<open>loserPos\<close> with previous position
  \<open>winnerOldPos\<close>, and nothing else changes; if the challenged team is the winner or
  \<open>winnerOldPos \<le> loserPos\<close>, no row changes. The statement is for an execution in which
  the store accepts the requests of the update, on a table that satisfies its own
  constraints (primary key, \<^verbatim>\<open>UNIQUE(league, position)\<close>, both teams of the challenge
  present) and whose positions in the challenger's league lie below the temporary
  position 99999 that step 1 uses.
\<close>

theorem validateScore_accept_ranking:
  assumes found: "find (\<lambda>c. challenge_id c = challengeId) (challenges w) = Some ch"
    and sc: "score ch = Some (challengerSets, challengedSets)"
    and fresh: "\<not> fail Select_fresh_teams"
    and ok: "writes_ok fail"
    and ids: "distinct (map team_id (db_teams w))"
    and uniq: "distinct (map (\<lambda>t. (league t, position t)) (db_teams w))"
    and tc: "tc \<in> set (db_teams w)" "team_id tc = challenger_team_id ch"
    and td: "td \<in> set (db_teams w)" "team_id td = challenged_team_id ch"
    and below: "\<forall>t\<in>set (db_teams w). league t = league tc \<longrightarrow> position t < 99999"
  shows "db_teams (validateScore fail w challengeId True)
           = map (spec_ranking (winnerId_of ch challengerSets challengedSets = challenger_team_id ch)
                    (challenger_team_id ch) (league tc) (position tc) (position td))
               (db_teams w)"
proof -
  let ?won = "winnerId_of ch challengerSets challengedSets = challenger_team_id ch"
  let ?w1 = "w\<lparr>db_challenges :=
                logged (update_challenge fail Update_validated (db_challenges w) challengeId
                          (\<lambda>c. c\<lparr>score_validated := True,
                                 winner_id := Some (winnerId_of ch challengerSets challengedSets)\<rparr>))
                       (db_challenges w)\<rparr>"
  have rd: "\<And>v. db_teams (refreshData fail v) = db_teams v"
    by (simp add: refreshData_def fetchTeams_def fetchChallenges_def fetchSettings_def
          split: option.splits)
  have nf: "\<not> fail Select_fresh_teams" by (rule fresh)
  have below': "\<And>t. t \<in> set (db_teams w) \<Longrightarrow> league t = league tc \<Longrightarrow> position t < 99999"
    using below by blast
  show ?thesis
  proof (cases ?won)
    case False
    then show ?thesis
      using found sc by (simp add: validateScore_def Let_def rd spec_ranking_id)
  next
    case won: True
    let ?fresh = "filter (\<lambda>t. team_id t = challenger_team_id ch \<or> team_id t = challenged_team_id ch)
                    (db_teams w)"
    show ?thesis
    proof (cases "challenger_team_id ch = challenged_team_id ch")
      case True
      then have "tc = td" using distinct_map_eq [OF ids tc(1) td(1)] tc(2) td(2) by simp
      moreover have "length ?fresh < 2" using freshTeams_one [OF ids] True by simp
      ultimately show ?thesis
        using found sc won by (simp add: validateScore_def Let_def rd spec_ranking_id)
    next
      case False
      have len: "\<not> length ?fresh < 2"
        using freshTeams_two [OF tc(1) td(1)] False tc(2) td(2) by simp
      have dfresh: "distinct (map team_id ?fresh)" using ids by (rule distinct_map_filter)
      have f1: "find (\<lambda>t. team_id t = challenger_team_id ch) ?fresh = Some tc"
        using find_by_id [OF dfresh, of tc] tc by simp
      have f2: "find (\<lambda>t. team_id t = challenged_team_id ch) ?fresh = Some td"
        using find_by_id [OF dfresh, of td] td by simp
      show ?thesis
      proof (cases "position tc > position td")
        case True
        have up: "updatePositions fail (db_teams w) (challenger_team_id ch) tc td
            = map (spec_ranking True (challenger_team_id ch) (league tc) (position tc) (position td))
                (db_teams w)"
          using updatePositions_spec [OF ok ids uniq tc(1) below' True] tc(2) by simp
        show ?thesis
          using found sc won len nf f1 f2 True up
          by (simp add: validateScore_def Let_def rd)
      next
        case False
        then show ?thesis
          using found sc won len nf f1 f2
          by (simp add: validateScore_def Let_def rd spec_ranking_id)
      qed
    qed
  qed
qed

theorem validateScore_accept_ranking_witness:
  "map (\<lambda>t. (team_id t, position t, previous_position t))
       (db_teams (validateScore reliable world8 ''k'' True))
     = [(''a'', 1, Some 1), (''x'', 1, Some 1), (''b'', 3, Some 2), (''c'', 4, Some 3), (''d'', 5, Some 4),
        (''e'', 6, Some 5), (''f'', 2, Some 6), (''g'', 7, Some 7), (''h'', 8, Some 8)]"
proof -
  have h1: "find (\<lambda>c. challenge_id c = ''k'') (challenges world8) = Some match_f_b"
    by (simp add: world8_def match_f_b_def)
  have h2: "score match_f_b = Some ([Some 6, Some 6], [Some 4, Some 3])"
    by (simp add: score_def match_f_b_def)
  have h3: "\<not> reliable Select_fresh_teams" by (simp add: reliable_def)
  have h4: "writes_ok reliable" by (simp add: writes_ok_def reliable_def)
  have h5: "distinct (map team_id (db_teams world8))"
    by (simp add: world8_def ladder8_def ladder_team_def)
  have h6: "distinct (map (\<lambda>t. (league t, position t)) (db_teams world8))"
    by (simp add: world8_def ladder8_def ladder_team_def)
  have h7: "ladder_team ''f'' mens 6 \<in> set (db_teams world8)"
    by (simp add: world8_def ladder8_def)
  have h8: "team_id (ladder_team ''f'' mens 6) = challenger_team_id match_f_b"
    by (simp add: ladder_team_def match_f_b_def)
  have h9: "ladder_team ''b'' mens 2 \<in> set (db_teams world8)"
    by (simp add: world8_def ladder8_def)
  have h10: "team_id (ladder_team ''b'' mens 2) = challenged_team_id match_f_b"
    by (simp add: ladder_team_def match_f_b_def)
  have h11: "\<forall>t\<in>set (db_teams world8).
               league t = league (ladder_team ''f'' mens 6) \<longrightarrow> position t < 99999"
    by (simp add: world8_def ladder8_def ladder_team_def)
  have won: "winnerId_of match_f_b [Some 6, Some 6] [Some 4, Some 3] = ''f''"
    by code_simp
  have e: "db_teams (validateScore reliable world8 ''k'' True)
          = map (spec_ranking (winnerId_of match_f_b [Some 6, Some 6] [Some 4, Some 3]
                                 = challenger_team_id match_f_b)
                   (challenger_team_id match_f_b) (league (ladder_team ''f'' mens 6))
                   (position (ladder_team ''f'' mens 6)) (position (ladder_team ''b'' mens 2)))
              (db_teams world8)"
    by (rule validateScore_accept_ranking [OF h1 h2 h3 h4 h5 h6 h7 h8 h9 h10 h11])
  have r: "map (\<lambda>t. (team_id t, position t, previous_position t))
             (map (spec_ranking (winnerId_of match_f_b [Some 6, Some 6] [Some 4, Some 3]
                                 = challenger_team_id match_f_b)
                   (challenger_team_id match_f_b) (league (ladder_team ''f'' mens 6))
                   (position (ladder_team ''f'' mens 6)) (position (ladder_team ''b'' mens 2)))
              (db_teams world8))
     = [(''a'', 1, Some 1), (''x'', 1, Some 1), (''b'', 3, Some 2), (''c'', 4, Some 3), (''d'', 5, Some 4),
        (''e'', 6, Some 5), (''f'', 2, Some 6), (''g'', 7, Some 7), (''h'', 8, Some 8)]"
    by (simp add: won h8 [symmetric] world8_def ladder8_def ladder_team_def spec_ranking_def)
  show ?thesis by (simp only: e r)
qed

subsection \<open>C2: the positions of a league are a dense permutation\<close>




subsection \<open>C3: canChallenge\<close>

text \<open>
  C3. \<^verbatim>\<open>canChallenge\<close> returns true exactly when the two teams are in the same league, are
  distinct, the settings are present, and either the current time is before the cutover
  date and the challenger's position is greater than the challenged team's, or the current
  time is on or after the cutover date and the difference of the positions is positive
  and at most \<^verbatim>\<open>maxPositionDifference\<close>.
\<close>

theorem canChallenge_iff:
  "canChallenge w now challengerTeam challengedTeam =
     (league challengerTeam = league challengedTeam
      \<and> team_id challengerTeam \<noteq> team_id challengedTeam
      \<and> (case settings w of
            None \<Rightarrow> False
          | Some s \<Rightarrow>
              (now < challengeRestrictionDate s
                 \<and> position challengerTeam > position challengedTeam)
              \<or> (challengeRestrictionDate s \<le> now
                 \<and> 0 < position challengerTeam - position challengedTeam
                 \<and> position challengerTeam - position challengedTeam \<le> maxPositionDifference s)))"
  by (auto simp: canChallenge_def Let_def split: option.splits)

text \<open>The examples of section 8: before the cutover position 10 may challenge position 1;
  from the cutover on, with a maximal difference of 4, it may challenge position 6 and
  not position 5.\<close>

theorem canChallenge_iff_witness:
  "canChallenge world8 999 (ladder_team ''j'' mens 10) (ladder_team ''a'' mens 1)
   \<and> canChallenge world8 1000 (ladder_team ''j'' mens 10) (ladder_team ''f'' mens 6)
   \<and> \<not> canChallenge world8 1000 (ladder_team ''j'' mens 10) (ladder_team ''e'' mens 5)
   \<and> \<not> canChallenge (world8\<lparr>settings := None\<rparr>) 999 (ladder_team ''j'' mens 10)
          (ladder_team ''a'' mens 1)"
  using canChallenge_iff [of world8 999 "ladder_team ''j'' mens 10" "ladder_team ''a'' mens 1"]
    canChallenge_iff [of world8 1000 "ladder_team ''j'' mens 10" "ladder_team ''f'' mens 6"]
    canChallenge_iff [of world8 1000 "ladder_team ''j'' mens 10" "ladder_team ''e'' mens 5"]
    canChallenge_iff [of "world8\<lparr>settings := None\<rparr>" 999 "ladder_team ''j'' mens 10"
      "ladder_team ''a'' mens 1"]
  by (simp add: world8_def ladder_team_def)

subsection \<open>C4: the set validator\<close>

text \<open>
  C4. For two integers entered as the games of one set, \<^verbatim>\<open>validateSetScores\<close> accepts
  exactly when the larger value \<open>w\<close> and the smaller value \<open>l\<close> satisfy \<open>w = 6\<close> and
  \<open>0 \<le> l \<le> 4\<close>, or \<open>w = 7\<close> and \<open>l\<close> is 5 or 6; equal games are rejected for every
  value, and a negative value is rejected.
\<close>

theorem validateSetScores_rule:
  "(validateSetScores (Some a) (Some b) = None) =
     ((max a b = 6 \<and> 0 \<le> min a b \<and> min a b \<le> 4) \<or> (max a b = 7 \<and> (min a b = 5 \<or> min a b = 6)))
   \<and> validateSetScores (Some a) (Some a) \<noteq> None
   \<and> (a < 0 \<or> b < 0 \<longrightarrow> validateSetScores (Some a) (Some b) = Some Scores_cannot_be_negative)"
  by (auto simp: isValidSetScore_def max_def min_def)

theorem validateSetScores_rule_witness:
  "validateSetScores (Some 7) (Some 5) = None
   \<and> validateSetScores (Some 6) (Some 6) \<noteq> None
   \<and> (-1::int) < 0
   \<and> validateSetScores (Some (-1)) (Some 6) = Some Scores_cannot_be_negative"
  using validateSetScores_rule [of 7 5] validateSetScores_rule [of 6 6]
    validateSetScores_rule [of "-1" 6]
  by simp

subsection \<open>C5: a third set after a 2-0\<close>

text \<open>
  C5 says that a third set is refused whenever one side has won both of the first two
  sets. The handler refuses it only when the third set goes to the other side: after
  6-4 6-3, a third set 6-2 for the same side gives three sets to none, neither count is
  2, the check is skipped and the score is passed on to \<^verbatim>\<open>submitScore\<close>. (A third set
  for the other side is refused, and so is a 1-1 without a third set, with the toast for a
  match without a winner.)
\<close>

theorem handleSubmitScore_accepts_third_set_after_2_0:
  "handleSubmitScore \<lparr>set1c = Some 6, set1d = Some 4, set2c = Some 6, set2d = Some 3,
                       set3c = Some 6, set3d = Some 2\<rparr>
     = Inr ([Some 6, Some 6, Some 6], [Some 4, Some 3, Some 2])
   \<and> handleSubmitScore \<lparr>set1c = Some 6, set1d = Some 4, set2c = Some 6, set2d = Some 3,
                       set3c = Some 2, set3d = Some 6\<rparr>
     = Inl Invalid_Match
   \<and> handleSubmitScore \<lparr>set1c = Some 6, set1d = Some 4, set2c = Some 3, set2d = Some 6,
                       set3c = None, set3d = None\<rparr>
     = Inl Invalid_Match_Result"
  by (simp add: handleSubmitScore_def isValidSetScore_def isNaN_def b2n_def)

text \<open>A remark on the same handler: the set validator takes an empty pair of fields for a
  set that was not played, also for the two mandatory sets, and an empty form goes through
  as two sets for the challenged side.\<close>

lemma handleSubmitScore_empty_form:
  "handleSubmitScore \<lparr>set1c = None, set1d = None, set2c = None, set2d = None,
                       set3c = None, set3d = None\<rparr>
     = Inr ([None, None], [None, None])"
  by (simp add: handleSubmitScore_def isNaN_def b2n_def)

subsection \<open>C6: createChallenge\<close>

text \<open>
  C6. If the provider's list holds an active challenge (pending, accepted, or completed
  and not validated) between the two teams, in either direction, \<^verbatim>\<open>createChallenge\<close>
  fails with the duplicate-challenge error and the state is unchanged. If it holds none
  and the store accepts the insert, the call returns normally, the teams are untouched
  and the \<^verbatim>\<open>challenges\<close> table gains one row, whose status is \<open>accepted\<close>.
\<close>

theorem createChallenge_duplicate_guard:
  "(list_ex (\<lambda>c. between a b c \<and> is_active c) (challenges w)
      \<longrightarrow> createChallenge fail new_id w a b = (Some ActiveChallengeExists, w)
          \<and> createChallenge fail new_id w b a = (Some ActiveChallengeExists, w))
   \<and> (\<not> list_ex (\<lambda>c. between a b c \<and> is_active c) (challenges w)
        \<and> \<not> fail Insert_challenge \<and> \<not> list_ex (\<lambda>c. challenge_id c = new_id) (db_challenges w)
      \<longrightarrow> fst (createChallenge fail new_id w a b) = None
          \<and> db_teams (snd (createChallenge fail new_id w a b)) = db_teams w
          \<and> db_challenges (snd (createChallenge fail new_id w a b))
              = \<lparr>challenge_id = new_id, challenger_team_id = a, challenged_team_id = b,
                  status = accepted, challenger_sets = None, challenged_sets = None,
                  score_submitted_by = None, score_validated = False, winner_id = None\<rparr>
                # db_challenges w)"
proof (intro conjI impI)
  assume ex: "list_ex (\<lambda>c. between a b c \<and> is_active c) (challenges w)"
  then obtain c where "find (\<lambda>c. between a b c \<and> is_active c) (challenges w) = Some c"
    using find_None_iff_ex [of "\<lambda>c. between a b c \<and> is_active c" "challenges w"] by auto
  then show "createChallenge fail new_id w a b = (Some ActiveChallengeExists, w)"
    by (simp add: createChallenge_def)
  have "(\<lambda>c. between b a c \<and> is_active c) = (\<lambda>c. between a b c \<and> is_active c)"
    by (auto simp: between_def)
  with ex obtain c' where "find (\<lambda>c. between b a c \<and> is_active c) (challenges w) = Some c'"
    using find_None_iff_ex [of "\<lambda>c. between b a c \<and> is_active c" "challenges w"] by auto
  then show "createChallenge fail new_id w b a = (Some ActiveChallengeExists, w)"
    by (simp add: createChallenge_def)
next
  assume h: "\<not> list_ex (\<lambda>c. between a b c \<and> is_active c) (challenges w)
        \<and> \<not> fail Insert_challenge \<and> \<not> list_ex (\<lambda>c. challenge_id c = new_id) (db_challenges w)"
  then have n: "find (\<lambda>c. between a b c \<and> is_active c) (challenges w) = None"
    by (simp add: find_None_iff_ex)
  from h n show "fst (createChallenge fail new_id w a b) = None"
    by (simp add: createChallenge_def insert_challenge_def)
  from h n show "db_teams (snd (createChallenge fail new_id w a b)) = db_teams w"
    by (simp add: createChallenge_def insert_challenge_def fetchChallenges_def)
  from h n show "db_challenges (snd (createChallenge fail new_id w a b))
              = \<lparr>challenge_id = new_id, challenger_team_id = a, challenged_team_id = b,
                  status = accepted, challenger_sets = None, challenged_sets = None,
                  score_submitted_by = None, score_validated = False, winner_id = None\<rparr>
                # db_challenges w"
    by (simp add: createChallenge_def insert_challenge_def fetchChallenges_def)
qed

theorem createChallenge_duplicate_guard_witness:
  "list_ex (\<lambda>c. between ''f'' ''b'' c \<and> is_active c) (challenges world8)
   \<and> createChallenge reliable ''n'' world8 ''f'' ''b'' = (Some ActiveChallengeExists, world8)
   \<and> createChallenge reliable ''n'' world8 ''b'' ''f'' = (Some ActiveChallengeExists, world8)
   \<and> \<not> list_ex (\<lambda>c. between ''g'' ''c'' c \<and> is_active c) (challenges world8)
   \<and> fst (createChallenge reliable ''n'' world8 ''g'' ''c'') = None
   \<and> map status (db_challenges (snd (createChallenge reliable ''n'' world8 ''g'' ''c'')))
        = [accepted, completed]"
proof -
  have d: "list_ex (\<lambda>c. between ''f'' ''b'' c \<and> is_active c) (challenges world8)"
    by (simp add: world8_def match_f_b_def between_def is_active_def)
  have n: "\<not> list_ex (\<lambda>c. between ''g'' ''c'' c \<and> is_active c) (challenges world8)
        \<and> \<not> reliable Insert_challenge
        \<and> \<not> list_ex (\<lambda>c. challenge_id c = ''n'') (db_challenges world8)"
    by (simp add: world8_def match_f_b_def between_def is_active_def reliable_def)
  have s: "db_challenges world8 = [match_f_b]" "status match_f_b = completed"
    by (simp_all add: world8_def match_f_b_def)
  from createChallenge_duplicate_guard [of "''f''" "''b''" world8 reliable "''n''"] d
    createChallenge_duplicate_guard [of "''g''" "''c''" world8 reliable "''n''"] n s
  show ?thesis by simp
qed

subsection \<open>C7: submitScore\<close>

text \<open>
  C7 says that \<^verbatim>\<open>submitScore\<close> requires an active challenge and a valid score, fails
  without mutation otherwise, and clears the validated flag. The function makes no check:
  on a challenge that is completed and validated (not active), with the single tied set
  5-5 that the set validator refuses, it returns normally, stores the score and leaves
  the validated flag set.
\<close>

theorem submitScore_unchecked_counterexample:
  "\<not> is_active (hd (db_challenges world8_validated))
   \<and> validateSetScores (Some 5) (Some 5) = Some Sets_cannot_end_in_a_tie
   \<and> fst (submitScore reliable world8_validated ''k'' [Some 5] [Some 5] ''b'') = None
   \<and> map (\<lambda>c. (status c, challenger_sets c, challenged_sets c, score_submitted_by c, score_validated c))
        (db_challenges (snd (submitScore reliable world8_validated ''k'' [Some 5] [Some 5] ''b'')))
      = [(completed, Some [Some 5], Some [Some 5], Some ''b'', True)]"
  by (simp add: submitScore_def update_challenge_def fetchChallenges_def reliable_def
        world8_validated_def world8_def match_f_b_def is_active_def)

text \<open>
  C7, as amended. \<^verbatim>\<open>submitScore\<close> checks neither the status of the challenge nor the
  score (the dialog's handler checks the score before it calls). When the store refuses
  the update it throws and the state is unchanged. Otherwise it returns normally, the
  teams are untouched, and in the \<^verbatim>\<open>challenges\<close> table the row with that identifier gets
  status \<open>completed\<close>, both set arrays and the submitting team, and keeps its validated
  flag and winner; every other row is unchanged.
\<close>

theorem submitScore_effect:
  "(fail Update_score \<longrightarrow>
      submitScore fail w challengeId challengerSets challengedSets submittedByTeamId = (Some StoreError, w))
   \<and> (\<not> fail Update_score \<longrightarrow>
        fst (submitScore fail w challengeId challengerSets challengedSets submittedByTeamId) = None
        \<and> db_teams (snd (submitScore fail w challengeId challengerSets challengedSets submittedByTeamId))
            = db_teams w
        \<and> db_challenges (snd (submitScore fail w challengeId challengerSets challengedSets submittedByTeamId))
            = map (\<lambda>c. if challenge_id c = challengeId
                        then \<lparr>challenge_id = challenge_id c,
                              challenger_team_id = challenger_team_id c,
                              challenged_team_id = challenged_team_id c,
                              status = completed,
                              challenger_sets = Some challengerSets,
                              challenged_sets = Some challengedSets,
                              score_submitted_by = Some submittedByTeamId,
                              score_validated = score_validated c,
                              winner_id = winner_id c\<rparr>
                        else c) (db_challenges w))"
  by (simp add: submitScore_def update_challenge_def fetchChallenges_def)

theorem submitScore_effect_witness:
  "submitScore (\<lambda>r. r = Update_score) world8 ''k'' [Some 6, Some 6] [Some 4, Some 3] ''f''
     = (Some StoreError, world8)
   \<and> fst (submitScore reliable world8 ''k'' [Some 7, Some 6] [Some 5, Some 1] ''b'') = None
   \<and> map (\<lambda>c. (status c, challenger_sets c, challenged_sets c, score_submitted_by c, score_validated c))
        (db_challenges (snd (submitScore reliable world8 ''k'' [Some 7, Some 6] [Some 5, Some 1] ''b'')))
      = [(completed, Some [Some 7, Some 6], Some [Some 5, Some 1], Some ''b'', False)]"
  using submitScore_effect [of "\<lambda>r. r = Update_score" world8 "''k''" "[Some 6, Some 6]"
      "[Some 4, Some 3]" "''f''"]
    submitScore_effect [of reliable world8 "''k''" "[Some 7, Some 6]" "[Some 5, Some 1]" "''b''"]
  by (simp add: reliable_def world8_def match_f_b_def)

subsection \<open>C8: rejected operations and the ranking update\<close>

text \<open>
  C8 says that the ranking update is all-or-nothing. It is a sequence of separate writes
  whose errors are only logged: when the last write (step 3) fails on the ladder of
  section 8, the four teams between are already shifted and the winner stays at the
  temporary position 99999.
\<close>

theorem validateScore_partial_update_counterexample:
  "map (\<lambda>t. (team_id t, position t, previous_position t))
       (db_teams (validateScore (\<lambda>r. r = Update_step3) world8 ''k'' True))
     = [(''a'', 1, Some 1), (''x'', 1, Some 1), (''b'', 3, Some 2), (''c'', 4, Some 3), (''d'', 5, Some 4),
        (''e'', 6, Some 5), (''f'', 99999, Some 6), (''g'', 7, Some 7), (''h'', 8, Some 8)]
   \<and> map (\<lambda>t. (team_id t, position t, previous_position t)) (db_teams world8)
     = [(''a'', 1, Some 1), (''x'', 1, Some 1), (''b'', 2, Some 2), (''c'', 3, Some 3), (''d'', 4, Some 4),
        (''e'', 5, Some 5), (''f'', 6, Some 6), (''g'', 7, Some 7), (''h'', 8, Some 8)]"
  by code_simp

text \<open>
  C8, as amended. An operation that is rejected leaves the whole state unchanged:
  \<^verbatim>\<open>createChallenge\<close> and \<^verbatim>\<open>submitScore\<close> when they throw, \<^verbatim>\<open>createTeam\<close> when it returns
  \<^verbatim>\<open>null\<close>, \<^verbatim>\<open>validateScore\<close> when the provider knows no challenge with that identifier
  and a score. The ranking update of \<^verbatim>\<open>validateScore\<close> is given up as a whole, with every
  position as before, only when the fetch of the two teams fails; a dispute never touches
  a position. (A failure of a later write is logged and the other writes still apply.)
\<close>

theorem rejected_operations_leave_state:
  "(fst (createChallenge fail new_id w a b) \<noteq> None \<longrightarrow> snd (createChallenge fail new_id w a b) = w)
   \<and> (fst (submitScore fail w i cs ds sb) \<noteq> None \<longrightarrow> snd (submitScore fail w i cs ds sb) = w)
   \<and> (snd (createTeam fail new_id w name creatorId lg) = None
        \<longrightarrow> fst (createTeam fail new_id w name creatorId lg) = w)
   \<and> (list_all (\<lambda>c. challenge_id c \<noteq> j \<or> score c = None) (challenges w)
        \<longrightarrow> validateScore fail w j valid = w)
   \<and> (fail Select_fresh_teams \<longrightarrow> db_teams (validateScore fail w i True) = db_teams w)
   \<and> db_teams (validateScore fail w i False) = db_teams w"
proof (intro conjI impI)
  assume "fst (createChallenge fail new_id w a b) \<noteq> None"
  then show "snd (createChallenge fail new_id w a b) = w"
    by (auto simp: createChallenge_def split: option.splits sum.splits)
next
  assume "fst (submitScore fail w i cs ds sb) \<noteq> None"
  then show "snd (submitScore fail w i cs ds sb) = w"
    by (auto simp: submitScore_def split: sum.splits)
next
  assume "snd (createTeam fail new_id w name creatorId lg) = None"
  then show "fst (createTeam fail new_id w name creatorId lg) = w"
    by (auto simp: createTeam_def Let_def split: sum.splits)
next
  assume h: "list_all (\<lambda>c. challenge_id c \<noteq> j \<or> score c = None) (challenges w)"
  show "validateScore fail w j valid = w"
  proof (cases "find (\<lambda>c. challenge_id c = j) (challenges w)")
    case None
    then show ?thesis by (simp add: validateScore_def)
  next
    case (Some ch)
    then have "ch \<in> set (challenges w)" "challenge_id ch = j"
      by (auto simp: find_Some_iff)
    with h have "score ch = None" by (auto simp: list_all_iff)
    with Some show ?thesis by (simp add: validateScore_def)
  qed
next
  assume "fail Select_fresh_teams"
  then show "db_teams (validateScore fail w i True) = db_teams w"
    by (simp add: validateScore_def Let_def db_teams_refreshData split: option.splits prod.splits)
next
  show "db_teams (validateScore fail w i False) = db_teams w"
    by (simp add: validateScore_def Let_def db_teams_refreshData split: option.splits prod.splits)
qed

theorem rejected_operations_leave_state_witness:
  "fst (createChallenge (\<lambda>r. r \<noteq> Update_step3) ''n'' world8 ''f'' ''b'') \<noteq> None
   \<and> snd (createChallenge (\<lambda>r. r \<noteq> Update_step3) ''n'' world8 ''f'' ''b'') = world8
   \<and> fst (submitScore (\<lambda>r. r \<noteq> Update_step3) world8 ''k'' [Some 6, Some 6] [Some 4, Some 3] ''f'')
        \<noteq> None
   \<and> snd (submitScore (\<lambda>r. r \<noteq> Update_step3) world8 ''k'' [Some 6, Some 6] [Some 4, Some 3] ''f'')
        = world8
   \<and> snd (createTeam (\<lambda>r. r \<noteq> Update_step3) ''n'' world8 ''Nine'' ''u'' mens) = None
   \<and> fst (createTeam (\<lambda>r. r \<noteq> Update_step3) ''n'' world8 ''Nine'' ''u'' mens) = world8
   \<and> list_all (\<lambda>c. challenge_id c \<noteq> ''z'' \<or> score c = None) (challenges world8)
   \<and> validateScore (\<lambda>r. r \<noteq> Update_step3) world8 ''z'' True = world8
   \<and> db_teams (validateScore (\<lambda>r. r \<noteq> Update_step3) world8 ''k'' True) = db_teams world8
   \<and> db_teams (validateScore (\<lambda>r. r \<noteq> Update_step3) world8 ''k'' False) = db_teams world8"
proof -
  have h1: "fst (createChallenge (\<lambda>r. r \<noteq> Update_step3) ''n'' world8 ''f'' ''b'') \<noteq> None"
    by code_simp
  have h2: "fst (submitScore (\<lambda>r. r \<noteq> Update_step3) world8 ''k'' [Some 6, Some 6] [Some 4, Some 3] ''f'')
        \<noteq> None"
    by code_simp
  have h3: "snd (createTeam (\<lambda>r. r \<noteq> Update_step3) ''n'' world8 ''Nine'' ''u'' mens) = None"
    by code_simp
  have h4: "list_all (\<lambda>c. challenge_id c \<noteq> ''z'' \<or> score c = None) (challenges world8)"
    by code_simp
  have h5: "Select_fresh_teams \<noteq> Update_step3" by simp
  from rejected_operations_leave_state [of "\<lambda>r. r \<noteq> Update_step3" "''n''" world8 "''f''" "''b''"
      "''k''" "[Some 6, Some 6]" "[Some 4, Some 3]" "''f''" "''Nine''" "''u''" mens "''z''" True]
    h1 h2 h3 h4 h5
  show ?thesis by simp
qed

subsection \<open>C9: dispute and resubmission\<close>

text \<open>
  C9. For a challenge the provider knows with a submitted score, \<^verbatim>\<open>validateScore\<close> with
  \<^verbatim>\<open>accept = false\<close> (on a store that answers) sets the status of the row with that
  identifier to \<open>accepted\<close>, clears both set arrays and the submitting team, and keeps the
  validated flag as it was (false for a score that awaits confirmation); the teams are
  untouched and the provider's list is the new table. And submitting a score, disputing
  it, submitting the same score again and confirming it ends in the same state, challenges
  and ranking alike, as submitting and confirming it directly.
\<close>

theorem dispute_and_resubmit:
  "(find (\<lambda>c. challenge_id c = i) (challenges w) = Some ch \<and> score ch \<noteq> None \<longrightarrow>
      db_challenges (validateScore reliable w i False)
        = map (\<lambda>c. if challenge_id c = i
                    then \<lparr>challenge_id = challenge_id c,
                          challenger_team_id = challenger_team_id c,
                          challenged_team_id = challenged_team_id c,
                          status = accepted,
                          challenger_sets = None,
                          challenged_sets = None,
                          score_submitted_by = None,
                          score_validated = score_validated c,
                          winner_id = winner_id c\<rparr>
                    else c) (db_challenges w)
      \<and> challenges (validateScore reliable w i False)
          = db_challenges (validateScore reliable w i False)
      \<and> db_teams (validateScore reliable w i False) = db_teams w)
   \<and> validateScore reliable
        (snd (submitScore reliable
                (validateScore reliable (snd (submitScore reliable w i cs ds b)) i False)
                i cs ds b))
        i True
      = validateScore reliable (snd (submitScore reliable w i cs ds b)) i True"
proof (intro conjI impI)
  assume h: "find (\<lambda>c. challenge_id c = i) (challenges w) = Some ch \<and> score ch \<noteq> None"
  then have d: "validateScore reliable w i False
     = w\<lparr>db_challenges := map (disputed i) (db_challenges w),
          teams := sort_key position (db_teams w),
          challenges := map (disputed i) (db_challenges w),
          settings := (case db_settings w of None \<Rightarrow> settings w | Some s \<Rightarrow> Some s)\<rparr>"
    using dispute_reliable [of i w ch] by simp
  show "db_challenges (validateScore reliable w i False)
        = map (\<lambda>c. if challenge_id c = i
                    then \<lparr>challenge_id = challenge_id c,
                          challenger_team_id = challenger_team_id c,
                          challenged_team_id = challenged_team_id c,
                          status = accepted,
                          challenger_sets = None,
                          challenged_sets = None,
                          score_submitted_by = None,
                          score_validated = score_validated c,
                          winner_id = winner_id c\<rparr>
                    else c) (db_challenges w)"
    unfolding d by (simp add: disputed_def)
  show "challenges (validateScore reliable w i False)
          = db_challenges (validateScore reliable w i False)"
    unfolding d by simp
  show "db_teams (validateScore reliable w i False) = db_teams w"
    unfolding d by simp
next
  show "validateScore reliable
        (snd (submitScore reliable
                (validateScore reliable (snd (submitScore reliable w i cs ds b)) i False)
                i cs ds b))
        i True
      = validateScore reliable (snd (submitScore reliable w i cs ds b)) i True"
    by (rule roundtrip)
qed

theorem dispute_and_resubmit_witness:
  "find (\<lambda>c. challenge_id c = ''k'') (challenges world8) = Some match_f_b
   \<and> score match_f_b \<noteq> None
   \<and> map (\<lambda>c. (status c, challenger_sets c, challenged_sets c, score_submitted_by c,
               score_validated c))
        (db_challenges (validateScore reliable world8 ''k'' False))
      = [(accepted, None, None, None, False)]
   \<and> db_teams (validateScore reliable world8 ''k'' False) = db_teams world8
   \<and> validateScore reliable
        (snd (submitScore reliable
                (validateScore reliable
                   (snd (submitScore reliable world8 ''k'' [Some 6, Some 6] [Some 4, Some 3] ''f''))
                   ''k'' False)
                ''k'' [Some 6, Some 6] [Some 4, Some 3] ''f''))
        ''k'' True
      = validateScore reliable
          (snd (submitScore reliable world8 ''k'' [Some 6, Some 6] [Some 4, Some 3] ''f''))
          ''k'' True"
proof -
  have h: "find (\<lambda>c. challenge_id c = ''k'') (challenges world8) = Some match_f_b
             \<and> score match_f_b \<noteq> None"
    by (simp add: world8_def match_f_b_def score_def)
  have s: "db_challenges world8 = [match_f_b]" by (simp add: world8_def)
  from dispute_and_resubmit [of "''k''" world8 match_f_b "[Some 6, Some 6]" "[Some 4, Some 3]" "''f''"]
    h s
  show ?thesis by (simp add: match_f_b_def)
qed

subsection \<open>C10: createTeam\<close>

text \<open>
  C10. When \<^verbatim>\<open>createTeam\<close> returns a team, its position and its previous position are both
  the number of teams of that league in the provider's list plus one, the team is in the
  requested league, and the table is the old table with the new row appended: no existing
  row changes. When the provider's list is up to date, and in every state reached while no
  request of a position update has failed (where a stale list makes the insert fail on
  the occupied position), that number is the number of teams of the league in the table:
  the new team enters at the bottom.
\<close>

theorem createTeam_bottom:
  "snd (createTeam fail new_id w name creatorId lg) = Some t \<longrightarrow>
     position t = int (length (filter (\<lambda>t. league t = lg) (teams w))) + 1
     \<and> previous_position t = Some (int (length (filter (\<lambda>t. league t = lg) (teams w))) + 1)
     \<and> league t = lg
     \<and> db_teams (fst (createTeam fail new_id w name creatorId lg)) = db_teams w @ [t]
     \<and> (teams w = sort_key position (db_teams w) \<or> undisturbed w \<longrightarrow>
          position t = int (length (filter (\<lambda>t. league t = lg) (db_teams w))) + 1)"
proof (intro impI conjI)
  assume res: "snd (createTeam fail new_id w name creatorId lg) = Some t"
  then show "position t = int (length (filter (\<lambda>t. league t = lg) (teams w))) + 1"
    and "previous_position t = Some (int (length (filter (\<lambda>t. league t = lg) (teams w))) + 1)"
    and "league t = lg"
    by (auto simp: createTeam_def Let_def split: sum.splits)
  from res show "db_teams (fst (createTeam fail new_id w name creatorId lg)) = db_teams w @ [t]"
    by (auto simp: createTeam_def Let_def insert_team_def db_teams_refreshData
          split: sum.splits if_splits)
  assume "teams w = sort_key position (db_teams w) \<or> undisturbed w"
  then show "position t = int (length (filter (\<lambda>t. league t = lg) (db_teams w))) + 1"
  proof
    assume "teams w = sort_key position (db_teams w)"
    with res show ?thesis
      by (auto simp: createTeam_def Let_def length_filter_sort_key split: sum.splits)
  next
    assume "undisturbed w"
    then have "store_inv w" by (rule undisturbed_inv)
    then show ?thesis using res by (rule createTeam_counts_table)
  qed
qed

theorem createTeam_bottom_witness:
  "snd (createTeam reliable ''i'' world8 ''Nine'' ''u'' mens)
     = Some \<lparr>team_id = ''i'', team_name = ''Nine'', creator_id = ''u'', league = mens,
              position = 9, previous_position = Some 9\<rparr>
   \<and> teams world8 = sort_key position (db_teams world8)
   \<and> int (length (filter (\<lambda>t. league t = mens) (db_teams world8))) + 1 = 9
   \<and> db_teams (fst (createTeam reliable ''i'' world8 ''Nine'' ''u'' mens))
     = ladder8 @ [\<lparr>team_id = ''i'', team_name = ''Nine'', creator_id = ''u'', league = mens,
                    position = 9, previous_position = Some 9\<rparr>]"
proof -
  have s: "snd (createTeam reliable ''i'' world8 ''Nine'' ''u'' mens)
     = Some \<lparr>team_id = ''i'', team_name = ''Nine'', creator_id = ''u'', league = mens,
              position = 9, previous_position = Some 9\<rparr>"
    by (simp add: createTeam_def Let_def insert_team_def position_taken_def reliable_def
          world8_def ladder8_def ladder_team_def)
  have d: "db_teams world8 = ladder8" by (simp add: world8_def)
  have y: "teams world8 = sort_key position (db_teams world8)" by code_simp
  have n: "int (length (filter (\<lambda>t. league t = mens) (db_teams world8))) + 1 = 9" by code_simp
  from y n createTeam_bottom [of reliable "''i''" world8 "''Nine''" "''u''" mens
      "\<lparr>team_id = ''i'', team_name = ''Nine'', creator_id = ''u'', league = mens,
              position = 9, previous_position = Some 9\<rparr>"] s d
  show ?thesis by simp
qed

end
